theory Spec2Isabelle
  imports Complex_Main
begin

section \<open>Canvas Bombardment: the simulation state of \<open>src/pages/Index.tsx\<close>\<close>

text \<open>
  The component keeps its whole simulation in variables closed over by one effect. They are
  collected here in the record \<open>game\<close>, and every handler of the source (\<open>onMouseMove\<close>,
  \<open>onClick\<close>, \<open>update\<close>, \<open>loop\<close>, the three \<open>setTimeout\<close> callbacks, the effect's cleanup)
  becomes a function from \<open>game\<close> to \<open>game\<close>.

  Conventions of the embedding:
  \<^item> JavaScript numbers are modelled as \<open>real\<close>: rounding, \<open>NaN\<close> and infinities are not
    represented. \<open>Math.hypot\<close> is the Euclidean norm.
  \<^item> The browser is part of the state: \<open>now\<close> is the value of \<open>performance.now()\<close>,
    \<open>timers\<close> the list of pending \<open>setTimeout\<close> callbacks with the time from which each may
    run, \<open>nextTimer\<close> the next timer handle (handles are positive and never reused),
    \<open>reloads\<close> the number of calls of \<open>window.location.reload()\<close>. One handler runs at one
    clock value.
  \<^item> Painting is left out; the draw procedures are kept for the assignments they make to the
    simulation state (\<open>ex.r\<close>, \<open>animTime\<close>). Exhaust particles and earthquake buildings, whose
    values come from \<open>Math.random\<close> and which nothing else reads, are left out as well.
  \<^item> The optional fields \<open>hitBomber?\<close> and \<open>hitBoy?\<close> are read only through \<open>!ex.hitBomber\<close>
    and \<open>!ex.hitBoy\<close>; a missing field is \<open>False\<close>.
\<close>

record Vec =
  v_x :: real
  v_y :: real

datatype explosion_kind = nuclear

record Explosion =
  ex_x :: real
  ex_y :: real
  ex_r :: real
  maxR :: real
  ex_alive :: bool
  createdAt :: real
  kind :: explosion_kind
  lifeMs :: real
  hitBomber :: bool
  hitBoy :: bool

record Actor =
  a_x :: real
  a_y :: real
  a_w :: real
  a_h :: real
  a_alive :: bool
  animTime :: real

record Popup =
  p_x :: real
  p_y :: real
  p_text :: string
  p_life :: real
  p_maxLife :: real

record Missile =
  pos :: Vec
  vel :: Vec
  speed :: real

datatype timer_action = SettleDetonation | RespawnBomber | Reload

record Timer =
  t_id :: nat
  fireAt :: real
  action :: timer_action

record game =
  running :: bool
  width :: real
  height :: real
  rect :: Vec
  mouse :: Vec
  lastMouse :: Vec
  firstClickHandled :: bool
  stopTimer :: "nat option"
  missile :: Missile
  explosions :: "Explosion list"
  boy :: Actor
  bomber :: Actor
  score :: int
  scorePulse :: real
  popups :: "Popup list"
  startTime :: real
  lastTime :: real
  quakeActive :: bool
  quakeStart :: real
  reloadQueued :: bool
  now :: real
  timers :: "Timer list"
  nextTimer :: nat
  reloads :: nat

subsection \<open>Constants and small helpers\<close>

definition quakeDuration :: real where
  "quakeDuration = 2200"

definition groundY :: "game \<Rightarrow> real" where
  "groundY st = min (height st - 40) (height st * 0.9)"

definition clamp :: "real \<Rightarrow> real \<Rightarrow> real \<Rightarrow> real" where
  "clamp v a b = max a (min b v)"

definition hypot :: "real \<Rightarrow> real \<Rightarrow> real" where
  "hypot dx dy = sqrt (dx\<^sup>2 + dy\<^sup>2)"

definition circleHit :: "Explosion \<Rightarrow> real \<Rightarrow> real \<Rightarrow> real \<Rightarrow> bool" where
  "circleHit ex cx cy radius =
     (let dx = ex_x ex - cx; dy = ex_y ex - cy; dist = hypot dx dy
      in dist \<le> ex_r ex + radius)"

subsection \<open>Timers of the browser\<close>

text \<open>
  \<open>setTimeout\<close> appends a pending callback that may run from \<open>now + delay\<close> on and returns
  its handle; \<open>clearTimeout\<close> drops the callback with that handle, if it is still pending.
  \<open>truthy\<close> is the test \<open>if (stopTimer)\<close> on a value of type \<open>number | null\<close>.
\<close>

definition setTimeout :: "timer_action \<Rightarrow> real \<Rightarrow> game \<Rightarrow> nat \<times> game" where
  "setTimeout act delay st =
     (nextTimer st,
      st\<lparr>timers := timers st @ [\<lparr>t_id = nextTimer st, fireAt = now st + delay, action = act\<rparr>],
         nextTimer := Suc (nextTimer st)\<rparr>)"

definition clearTimeout :: "nat \<Rightarrow> game \<Rightarrow> game" where
  "clearTimeout h st = st\<lparr>timers := filter (\<lambda>t. t_id t \<noteq> h) (timers st)\<rparr>"

fun truthy :: "nat option \<Rightarrow> bool" where
  "truthy None = False"
| "truthy (Some h) = (h \<noteq> 0)"

subsection \<open>Spawning\<close>

text \<open>
  \<open>new_explosion x y t\<close> is the object literal that \<open>spawnExplosion\<close> pushes when
  \<open>performance.now()\<close> returns \<open>t\<close>.
\<close>

definition new_explosion :: "real \<Rightarrow> real \<Rightarrow> real \<Rightarrow> Explosion" where
  "new_explosion x y t =
     \<lparr>ex_x = x, ex_y = y, ex_r = 0, maxR = 140, ex_alive = True, createdAt = t,
      kind = nuclear, lifeMs = 1200, hitBomber = False, hitBoy = False\<rparr>"

definition spawnExplosion :: "real \<Rightarrow> real \<Rightarrow> game \<Rightarrow> game" where
  "spawnExplosion x y st =
     st\<lparr>explosions := explosions st @ [new_explosion x y (now st)]\<rparr>"

definition spawnBomber :: "game \<Rightarrow> game" where
  "spawnBomber st =
     st\<lparr>bomber := (bomber st)\<lparr>a_alive := True, animTime := 0, a_x := - 200,
                               a_y := groundY st - 200\<rparr>\<rparr>"

definition triggerEarthquake :: "game \<Rightarrow> game" where
  "triggerEarthquake st =
     (let st1 = st\<lparr>quakeActive := True, quakeStart := now st\<rparr>
      in if \<not> reloadQueued st1
         then snd (setTimeout Reload (quakeDuration + 300) (st1\<lparr>reloadQueued := True\<rparr>))
         else st1)"

subsection \<open>Input handlers\<close>

definition onMouseMove :: "real \<Rightarrow> real \<Rightarrow> game \<Rightarrow> game" where
  "onMouseMove clientX clientY st =
     (let x = clientX - v_x (rect st);
          y = clientY - v_y (rect st);
          st1 = st\<lparr>mouse := \<lparr>v_x = x, v_y = y\<rparr>\<rparr>;
          st2 = (if truthy (stopTimer st1) then clearTimeout (the (stopTimer st1)) st1 else st1)
      in if firstClickHandled st2
         then (case setTimeout SettleDetonation 240 st2 of
                 (h, st3) \<Rightarrow> st3\<lparr>stopTimer := Some h\<rparr>)
         else st2)"

definition onClick :: "real \<Rightarrow> real \<Rightarrow> game \<Rightarrow> game" where
  "onClick clientX clientY st =
     (let x = clientX - v_x (rect st);
          y = clientY - v_y (rect st);
          st1 = (if \<not> firstClickHandled st then st\<lparr>firstClickHandled := True\<rparr> else st)
      in spawnExplosion x y st1)"

definition resize :: "real \<Rightarrow> real \<Rightarrow> game \<Rightarrow> game" where
  "resize innerWidth innerHeight st =
     st\<lparr>width := of_int \<lfloor>innerWidth\<rfloor>, height := of_int \<lfloor>innerHeight\<rfloor>\<rparr>"

subsection \<open>The update step\<close>

definition missile_follow :: "game \<Rightarrow> game" where
  "missile_follow st =
     (if firstClickHandled st
      then (let m = missile st;
                px = v_x (pos m) + (v_x (mouse st) - v_x (pos m)) * speed m;
                py = v_y (pos m) + (v_y (mouse st) - v_y (pos m)) * speed m
            in st\<lparr>missile := m\<lparr>pos := \<lparr>v_x = px, v_y = py\<rparr>,
                                 vel := \<lparr>v_x = px - v_x (lastMouse st),
                                         v_y = py - v_y (lastMouse st)\<rparr>\<rparr>,
                  lastMouse := \<lparr>v_x = px, v_y = py\<rparr>\<rparr>)
      else st)"

definition spawn_actors :: "game \<Rightarrow> game" where
  "spawn_actors st =
     (let t = now st - startTime st
      in if t > 30000
         then (let st1 = (if \<not> a_alive (boy st)
                          then st\<lparr>boy := (boy st)\<lparr>a_alive := True, a_x := - 80,
                                                   a_y := groundY st - 8\<rparr>\<rparr>
                          else st)
               in if \<not> a_alive (bomber st1) then spawnBomber st1 else st1)
         else st)"

definition move_boy :: "real \<Rightarrow> game \<Rightarrow> game" where
  "move_boy dt st =
     (if a_alive (boy st)
      then (let b = (boy st)\<lparr>a_x := a_x (boy st) + 0.12 * dt\<rparr>
            in if a_x b - a_w b / 2 > width st + 40
               then st\<lparr>boy := b\<lparr>a_x := - 80\<rparr>\<rparr>
               else st\<lparr>boy := b\<rparr>)
      else st)"

definition bomber_behavior :: "real \<Rightarrow> game \<Rightarrow> game" where
  "bomber_behavior dt st =
     (if a_alive (bomber st) \<and> a_alive (boy st)
      then (let targetX = a_x (boy st) - 160;
                targetY = a_y (boy st) - 180;
                b = bomber st
            in st\<lparr>bomber := b\<lparr>a_x := a_x b + (targetX - a_x b) * 0.03,
                                a_y := a_y b + (targetY - a_y b) * 0.03\<rparr>\<rparr>)
      else if a_alive (bomber st)
      then (let b = (bomber st)\<lparr>a_x := a_x (bomber st) + 0.08 * dt\<rparr>
            in if a_x b - a_w b / 2 > width st + 60
               then st\<lparr>bomber := b\<lparr>a_x := - 120\<rparr>\<rparr>
               else st\<lparr>bomber := b\<rparr>)
      else st)"

text \<open>
  The popup loop runs from the last index down and splices out the popups that have aged
  out; the recursion below treats the tail (the higher indices) first, as the loop does.
\<close>

primrec age_popups :: "real \<Rightarrow> Popup list \<Rightarrow> Popup list" where
  "age_popups dt [] = []"
| "age_popups dt (p # ps) =
     (let ps' = age_popups dt ps;
          p' = p\<lparr>p_life := p_life p + dt, p_y := p_y p - 0.035 * dt\<rparr>
      in if p_life p' \<ge> p_maxLife p' then ps' else p' # ps')"

definition decay :: "real \<Rightarrow> game \<Rightarrow> game" where
  "decay dt st =
     st\<lparr>scorePulse := max 0 (scorePulse st - dt / 400),
        popups := age_popups dt (popups st)\<rparr>"

text \<open>
  The collision loop \<open>for (const ex of explosions)\<close>. An array iterator reads the length at
  every step, so the explosion pushed by a bomber hit is visited by the same loop; the loop
  is therefore indexed, and the state carries the growing array. \<open>ex\<close> is a reference to the
  array element, which the body mutates in place: \<open>explosions[i := \<dots>]\<close>.
\<close>

definition bomber_cond :: "nat \<Rightarrow> game \<Rightarrow> bool" where
  "bomber_cond i st =
     (let ex = explosions st ! i
      in a_alive (bomber st) \<and> \<not> hitBomber ex \<and>
         circleHit ex (a_x (bomber st)) (a_y (bomber st)) 40)"

definition hit_bomber :: "nat \<Rightarrow> game \<Rightarrow> game" where
  "hit_bomber i st =
     (if bomber_cond i st
      then (let ex = explosions st ! i;
                st1 = st\<lparr>explosions := (explosions st)[i := ex\<lparr>hitBomber := True\<rparr>]\<rparr>;
                st2 = st1\<lparr>score := score st1 + 1\<rparr>;
                st3 = st2\<lparr>scorePulse := 1\<rparr>;
                st4 = st3\<lparr>popups := popups st3 @
                         [\<lparr>p_x = a_x (bomber st3), p_y = a_y (bomber st3) - 20,
                           p_text = ''+1'', p_life = 0, p_maxLife = 900\<rparr>]\<rparr>;
                st5 = spawnExplosion (a_x (bomber st4)) (a_y (bomber st4)) st4;
                st6 = st5\<lparr>bomber := (bomber st5)\<lparr>a_alive := False\<rparr>\<rparr>
            in snd (setTimeout RespawnBomber 1200 st6))
      else st)"

definition boy_cond :: "nat \<Rightarrow> game \<Rightarrow> bool" where
  "boy_cond i st =
     (let ex = explosions st ! i
      in a_alive (boy st) \<and> \<not> hitBoy ex \<and>
         circleHit ex (a_x (boy st)) (a_y (boy st) - a_h (boy st) / 2) 28)"

definition hit_boy :: "nat \<Rightarrow> game \<Rightarrow> game" where
  "hit_boy i st =
     (if boy_cond i st
      then (let ex = explosions st ! i;
                st1 = st\<lparr>explosions := (explosions st)[i := ex\<lparr>hitBoy := True\<rparr>]\<rparr>;
                st2 = st1\<lparr>boy := (boy st1)\<lparr>a_alive := False\<rparr>\<rparr>
            in triggerEarthquake st2)
      else st)"

definition collide_body :: "nat \<Rightarrow> game \<Rightarrow> game" where
  "collide_body i st =
     (if \<not> ex_alive (explosions st ! i) then st
      else hit_boy i (hit_bomber i st))"

function collide :: "nat \<Rightarrow> game \<Rightarrow> game" where
  "collide i st =
     (if i < length (explosions st) then collide (Suc i) (collide_body i st) else st)"
  by pat_completeness auto
termination
proof (relation "measure (\<lambda>(i, st). length (explosions st)
                    + (if a_alive (bomber st) then 1 else 0) - i)")
  show "wf (measure (\<lambda>(i, st). length (explosions st)
                    + (if a_alive (bomber st) then 1 else 0) - i))"
    by simp
next
  fix i :: nat and st :: game
  assume less: "i < length (explosions st)"
  have "length (explosions (collide_body i st))
          + (if a_alive (bomber (collide_body i st)) then 1 else 0)
        \<le> length (explosions st) + (if a_alive (bomber st) then 1 else 0)"
    by (simp add: collide_body_def hit_boy_def hit_bomber_def bomber_cond_def boy_cond_def
          triggerEarthquake_def setTimeout_def spawnExplosion_def Let_def)
  with less
  show "((Suc i, collide_body i st), (i, st))
          \<in> measure (\<lambda>(i, st). length (explosions st)
                    + (if a_alive (bomber st) then 1 else 0) - i)"
    by (simp split: if_splits)
qed

declare collide.simps [simp del]

definition integrate :: "real \<Rightarrow> game \<Rightarrow> game" where
  "integrate dt st =
     decay dt (bomber_behavior dt (move_boy dt (spawn_actors (missile_follow st))))"

definition update :: "real \<Rightarrow> game \<Rightarrow> game" where
  "update dt st = collide 0 (integrate dt st)"

subsection \<open>The frame\<close>

definition shock_radius :: "real \<Rightarrow> real \<Rightarrow> real \<Rightarrow> real" where
  "shock_radius mr life elapsed = mr * (0.2 + 0.8 * clamp (elapsed / life) 0 1)"

definition drawNuclearExplosion :: "real \<Rightarrow> Explosion \<Rightarrow> Explosion" where
  "drawNuclearExplosion t_now ex =
     (let elapsed = t_now - createdAt ex;
          t = clamp (elapsed / lifeMs ex) 0 1
      in ex\<lparr>ex_r := maxR ex * (0.2 + 0.8 * t)\<rparr>)"

definition drawActor :: "real \<Rightarrow> Actor \<Rightarrow> Actor" where
  "drawActor dt a = (if \<not> a_alive a then a else a\<lparr>animTime := animTime a + dt\<rparr>)"

definition draw :: "real \<Rightarrow> game \<Rightarrow> game" where
  "draw dt st =
     st\<lparr>explosions := map (\<lambda>ex. if ex_alive ex then drawNuclearExplosion (now st) ex else ex)
                          (explosions st),
        boy := drawActor dt (boy st),
        bomber := drawActor dt (bomber st)\<rparr>"

text \<open>
  The cleanup loop also runs from the last index down, splicing out every explosion whose
  age exceeds its lifetime.
\<close>

primrec cleanup_explosions :: "real \<Rightarrow> Explosion list \<Rightarrow> Explosion list" where
  "cleanup_explosions t_now [] = []"
| "cleanup_explosions t_now (ex # exs) =
     (let exs' = cleanup_explosions t_now exs
      in if t_now - createdAt ex > lifeMs ex then exs' else ex # exs')"

definition cleanup :: "game \<Rightarrow> game" where
  "cleanup st = st\<lparr>explosions := cleanup_explosions (now st) (explosions st)\<rparr>"

definition loop :: "real \<Rightarrow> game \<Rightarrow> game" where
  "loop time st =
     (if \<not> running st then st
      else (let dt = time - lastTime st;
                st1 = st\<lparr>lastTime := time\<rparr>;
                st2 = update dt st1;
                st3 = draw dt st2
            in cleanup st3))"

subsection \<open>Timer callbacks, teardown and the event loop\<close>

definition run_action :: "timer_action \<Rightarrow> game \<Rightarrow> game" where
  "run_action act st =
     (case act of
        SettleDetonation \<Rightarrow> spawnExplosion (v_x (mouse st)) (v_y (mouse st)) st
      | RespawnBomber \<Rightarrow> (if running st then spawnBomber st else st)
      | Reload \<Rightarrow> st\<lparr>reloads := Suc (reloads st)\<rparr>)"

text \<open>
  A pending callback runs when the browser picks it, never before its delay has passed.
\<close>

definition fire :: "nat \<Rightarrow> game \<Rightarrow> game" where
  "fire h st =
     (case find (\<lambda>t. t_id t = h) (timers st) of
        None \<Rightarrow> st
      | Some t \<Rightarrow>
          if fireAt t \<le> now st
          then run_action (action t) (clearTimeout h st)
          else st)"

definition unmount :: "game \<Rightarrow> game" where
  "unmount st =
     (let st1 = st\<lparr>running := False\<rparr>
      in if truthy (stopTimer st1) then clearTimeout (the (stopTimer st1)) st1 else st1)"

text \<open>
  What the browser can do to a mounted page: let time pass, deliver a pointer move
  (\<open>pointermove\<close>, \<open>mousemove\<close> and \<open>touchmove\<close> all call \<open>onMouseMove\<close>), deliver an
  activation (\<open>click\<close> or \<open>touchstart\<close>), resize the window, run the first animation-frame
  callback (which sets \<open>lastTime\<close> before calling \<open>loop\<close>) or a later one, run a pending
  timer, or unmount the component. Listeners and the animation frame exist exactly while
  \<open>running\<close> holds; after \<open>window.location.reload()\<close> the page is gone and nothing runs.
\<close>

datatype event =
    Tick real
  | Move real real
  | Click real real
  | Resize real real
  | FirstFrame real
  | Frame real
  | Fire nat
  | Unmount

definition step :: "event \<Rightarrow> game \<Rightarrow> game" where
  "step e st =
     (if reloads st > 0 then st
      else (case e of
              Tick d \<Rightarrow> (if d \<ge> 0 then st\<lparr>now := now st + d\<rparr> else st)
            | Move cx cy \<Rightarrow> (if running st then onMouseMove cx cy st else st)
            | Click cx cy \<Rightarrow> (if running st then onClick cx cy st else st)
            | Resize iw ih \<Rightarrow> (if running st then resize iw ih st else st)
            | FirstFrame t \<Rightarrow> (if running st then loop t (st\<lparr>lastTime := t\<rparr>) else st)
            | Frame t \<Rightarrow> (if running st then loop t st else st)
            | Fire h \<Rightarrow> fire h st
            | Unmount \<Rightarrow> (if running st then unmount st else st)))"

primrec run :: "event list \<Rightarrow> game \<Rightarrow> game" where
  "run [] st = st"
| "run (e # es) st = run es (step e st)"

text \<open>The state right after the effect has run, for a window of the given inner size.\<close>

definition init :: "real \<Rightarrow> real \<Rightarrow> real \<Rightarrow> game" where
  "init innerWidth innerHeight t0 =
     (let w = of_int \<lfloor>innerWidth\<rfloor>;
          h = of_int \<lfloor>innerHeight\<rfloor>;
          g = min (h - 40) (h * 0.9)
      in \<lparr>running = True, width = w, height = h,
          rect = \<lparr>v_x = 0, v_y = 0\<rparr>,
          mouse = \<lparr>v_x = w / 2, v_y = h / 2\<rparr>,
          lastMouse = \<lparr>v_x = w / 2, v_y = h / 2\<rparr>,
          firstClickHandled = False,
          stopTimer = None,
          missile = \<lparr>pos = \<lparr>v_x = w / 2, v_y = h / 2\<rparr>, vel = \<lparr>v_x = 0, v_y = 0\<rparr>,
                     speed = 0.15\<rparr>,
          explosions = [],
          boy = \<lparr>a_x = - 80, a_y = g - 40, a_w = 28, a_h = 46, a_alive = False, animTime = 0\<rparr>,
          bomber = \<lparr>a_x = - 200, a_y = g - 200, a_w = 110, a_h = 34, a_alive = False,
                    animTime = 0\<rparr>,
          score = 0, scorePulse = 0, popups = [],
          startTime = t0, lastTime = t0,
          quakeActive = False, quakeStart = 0, reloadQueued = False,
          now = t0, timers = [], nextTimer = 1, reloads = 0\<rparr>)"

subsection \<open>Observations used in the statements\<close>

text \<open>
  \<open>qualifies j st\<close>: the explosion at index \<open>j\<close> passes the Flyer test of the collision
  loop in state \<open>st\<close>. \<open>flyer_view\<close> collects what the Flyer branch of the loop reads and
  writes: everything about the explosions but their \<open>hitBoy\<close> flags, and the pending respawn
  callbacks. \<open>flagged\<close> counts the explosions that have scored.
\<close>

definition qualifies :: "nat \<Rightarrow> game \<Rightarrow> bool" where
  "qualifies j st = (ex_alive (explosions st ! j) \<and> bomber_cond j st)"

definition no_hitBoy :: "Explosion \<Rightarrow> Explosion" where
  "no_hitBoy ex = ex\<lparr>hitBoy := False\<rparr>"

definition pending :: "timer_action \<Rightarrow> game \<Rightarrow> Timer list" where
  "pending act st = filter (\<lambda>t. action t = act) (timers st)"


definition flagged :: "game \<Rightarrow> nat" where
  "flagged st = length (filter hitBomber (explosions st))"

text \<open>
  \<open>reload_inv\<close> relates the one-shot flag to the reload callbacks: while the flag is unset
  no reload callback is pending and the page has not been reloaded; once it is set, pending
  callbacks and reloads together number at most one. \<open>reload_closed n\<close>: the flag is set
  and at most \<open>n\<close> reload callbacks are pending.
\<close>

definition reload_inv :: "game \<Rightarrow> bool" where
  "reload_inv st =
     (if reloadQueued st then length (pending Reload st) + reloads st \<le> 1
      else pending Reload st = [] \<and> reloads st = 0)"

definition reload_closed :: "nat \<Rightarrow> game \<Rightarrow> bool" where
  "reload_closed n st = (reloadQueued st \<and> length (pending Reload st) \<le> n)"

text \<open>
  The settle timer. \<open>settle_inv\<close> is the invariant of the timer handles: handles are
  positive and below the next handle, and a pending settle callback is the one \<open>stopTimer\<close>
  names, in a mounted component. \<open>not_due r st\<close>: every pending settle callback is due
  \<open>r\<close> ms from now or later. \<open>settle_fires e st\<close>: the step \<open>e\<close> runs a settle callback in
  \<open>st\<close>; \<open>settle_count\<close> counts such steps along a run. \<open>quiet r evs\<close>: the clock
  advances by less than \<open>r\<close> ms in all before the first pointer move of \<open>evs\<close>, and by less
  than 240 ms in all between one pointer move and the next, or the end.
  \<open>no_moves evs\<close>: no pointer move is delivered.
\<close>

definition settle_ok :: "nat \<Rightarrow> Timer list \<Rightarrow> nat option \<Rightarrow> bool \<Rightarrow> bool" where
  "settle_ok n ts sp rn =
     (0 < n \<and>
      list_all (\<lambda>t. 0 < t_id t \<and> t_id t < n \<and>
                     (action t = SettleDetonation \<longrightarrow> sp = Some (t_id t) \<and> rn)) ts)"

definition settle_inv :: "game \<Rightarrow> bool" where
  "settle_inv st = settle_ok (nextTimer st) (timers st) (stopTimer st) (running st)"

definition not_due :: "real \<Rightarrow> game \<Rightarrow> bool" where
  "not_due r st = list_all (\<lambda>t. now st + r \<le> fireAt t) (pending SettleDetonation st)"

definition settle_fires :: "event \<Rightarrow> game \<Rightarrow> bool" where
  "settle_fires e st =
     (case e of
        Fire h \<Rightarrow>
          reloads st = 0 \<and>
          (case find (\<lambda>t. t_id t = h) (timers st) of
             None \<Rightarrow> False
           | Some t \<Rightarrow> action t = SettleDetonation \<and> fireAt t \<le> now st)
      | _ \<Rightarrow> False)"

fun settle_count :: "event list \<Rightarrow> game \<Rightarrow> nat" where
  "settle_count [] st = 0"
| "settle_count (e # es) st = (if settle_fires e st then 1 else 0) + settle_count es (step e st)"

fun quiet :: "real \<Rightarrow> event list \<Rightarrow> bool" where
  "quiet r [] = True"
| "quiet r (Tick d # es) = (if 0 \<le> d then d < r \<and> quiet (r - d) es else quiet r es)"
| "quiet r (Move cx cy # es) = quiet 240 es"
| "quiet r (e # es) = quiet r es"

fun is_move :: "event \<Rightarrow> bool" where
  "is_move (Move cx cy) = True"
| "is_move e = False"

definition no_moves :: "event list \<Rightarrow> bool" where
  "no_moves evs = list_all (\<lambda>e. \<not> is_move e) evs"

text \<open>
  \<open>newly_hit s0 s\<close>: some explosion of \<open>s\<close> carries the \<open>hitBoy\<close> flag and did not carry it
  in \<open>s0\<close> (or did not exist there).
\<close>

definition newly_hit :: "game \<Rightarrow> game \<Rightarrow> bool" where
  "newly_hit s0 s =
     (\<exists>j<length (explosions s). hitBoy (explosions s ! j) \<and>
          (j < length (explosions s0) \<longrightarrow> \<not> hitBoy (explosions s0 ! j)))"

text \<open>
  Following one explosion through a run. The collision loop and the draw pass change the
  explosions in place and a new explosion is pushed at the end of the array, so an explosion
  keeps its index in every step but a frame, whose cleanup splices out the explosions that
  have outlived \<open>lifeMs\<close>. \<open>origin\<close> collects what \<open>spawnExplosion\<close> fixes and no later
  assignment changes. \<open>expired st ex\<close> is the test of the cleanup at the clock value of \<open>st\<close>.
  \<open>frames e st\<close>: the step \<open>e\<close> runs the frame loop in \<open>st\<close>. \<open>follow e st j\<close> is the index,
  after the step \<open>e\<close>, of the explosion that is at index \<open>j\<close> in \<open>st\<close>: the number of
  explosions before it that the cleanup keeps, or \<open>None\<close> when the cleanup of the step
  removes it; \<open>follow_run\<close> follows it along a run. \<open>before_cleanup e st\<close> is the state of
  a frame step after its update and draw pass, \<open>retired e st\<close> the number of flagged
  explosions that the cleanup of the step removes, \<open>retired_run\<close> their number along a run.
  \<open>kept xs ys\<close>: the explosions of \<open>xs\<close> are in \<open>ys\<close> at the same indices, and those that
  were flagged still are.
\<close>

definition origin :: "Explosion \<Rightarrow> real \<times> real \<times> real \<times> real" where
  "origin ex = (ex_x ex, ex_y ex, createdAt ex, lifeMs ex)"

definition expired :: "game \<Rightarrow> Explosion \<Rightarrow> bool" where
  "expired st ex = (now st - createdAt ex > lifeMs ex)"

fun is_frame :: "event \<Rightarrow> bool" where
  "is_frame (FirstFrame t) = True"
| "is_frame (Frame t) = True"
| "is_frame e = False"

definition frames :: "event \<Rightarrow> game \<Rightarrow> bool" where
  "frames e st = (reloads st = 0 \<and> running st \<and> is_frame e)"

definition follow :: "event \<Rightarrow> game \<Rightarrow> nat \<Rightarrow> nat option" where
  "follow e st j =
     (if \<not> j < length (explosions st) then None
      else if \<not> frames e st then Some j
      else if expired st (explosions st ! j) then None
      else Some (length (filter (\<lambda>ex. \<not> expired st ex) (take j (explosions st)))))"

primrec follow_run :: "event list \<Rightarrow> game \<Rightarrow> nat \<Rightarrow> nat option" where
  "follow_run [] st j = (if j < length (explosions st) then Some j else None)"
| "follow_run (e # es) st j =
     (case follow e st j of None \<Rightarrow> None | Some k \<Rightarrow> follow_run es (step e st) k)"

definition before_cleanup :: "event \<Rightarrow> game \<Rightarrow> game" where
  "before_cleanup e st =
     (case e of
        FirstFrame t \<Rightarrow> draw 0 (update 0 (st\<lparr>lastTime := t\<rparr>))
      | Frame t \<Rightarrow> draw (t - lastTime st) (update (t - lastTime st) (st\<lparr>lastTime := t\<rparr>))
      | _ \<Rightarrow> st)"

definition retired :: "event \<Rightarrow> game \<Rightarrow> nat" where
  "retired e st =
     (if frames e st
      then flagged (before_cleanup e st) - flagged (cleanup (before_cleanup e st))
      else 0)"

primrec retired_run :: "event list \<Rightarrow> game \<Rightarrow> nat" where
  "retired_run [] st = 0"
| "retired_run (e # es) st = retired e st + retired_run es (step e st)"

definition kept :: "Explosion list \<Rightarrow> Explosion list \<Rightarrow> bool" where
  "kept xs ys =
     (length xs \<le> length ys \<and>
      (\<forall>k<length xs. origin (ys ! k) = origin (xs ! k) \<and>
           (hitBomber (xs ! k) \<longrightarrow> hitBomber (ys ! k))))"

text \<open>
  Waiting for the settle callback. \<open>undisturbed n evs\<close>: the events \<open>evs\<close> deliver no pointer
  move, do not unmount the component and do not run the callback with handle \<open>n\<close>;
  everything else may happen (time passing, frames, activations, resizes, other
  callbacks). \<open>armed n f st\<close>: in the mounted component, \<open>stopTimer\<close> holds the handle \<open>n\<close>
  and exactly one pending callback has that handle, a settle detonation that may run from
  the clock value \<open>f\<close> on.
\<close>

fun lets_wait :: "nat \<Rightarrow> event \<Rightarrow> bool" where
  "lets_wait n (Move cx cy) = False"
| "lets_wait n Unmount = False"
| "lets_wait n (Fire h) = (h \<noteq> n)"
| "lets_wait n e = True"

definition undisturbed :: "nat \<Rightarrow> event list \<Rightarrow> bool" where
  "undisturbed n evs = list_all (lets_wait n) evs"

definition armed :: "nat \<Rightarrow> real \<Rightarrow> game \<Rightarrow> bool" where
  "armed n f st =
     (running st \<and> stopTimer st = Some n \<and> n < nextTimer st \<and>
      filter (\<lambda>t. t_id t = n) (timers st) =
        [\<lparr>t_id = n, fireAt = f, action = SettleDetonation\<rparr>])"

subsection \<open>Example sessions\<close>

text \<open>
  Concrete sessions in a window of 800 by 600 pixels, mounted at clock value 0 (so the ground
  line is at \<open>y = 540\<close>, the Runner spawns at \<open>(-80, 532)\<close> and the Flyer at
  \<open>(-200, 340)\<close>). The first frame after 30 seconds spawns both actors; every later frame
  is delivered with the clock value as its timestamp.
\<close>

definition session0 :: game where
  "session0 = init 800 600 0"

definition edge_events :: "event list" where
  "edge_events = [Tick 30001, FirstFrame 30001, Tick 7675, Frame 37676]"

definition flyer_events :: "event list" where
  "flyer_events =
     [Tick 30001, FirstFrame 30001, Tick 6000, Frame 36001, Click 0 341,
      Tick 100, Frame 36101, Tick 100, Frame 36201, Tick 100, Frame 36301,
      Tick 100, Frame 36401, Tick 16]"

definition flyer_state :: game where
  "flyer_state = run flyer_events session0"

definition crash_events :: "event list" where
  "crash_events =
     [Tick 30001, FirstFrame 30001, Tick 4000, Frame 34001,
      Click 0 509, Click 436 509, Click 440 509, Tick 300, Frame 34301]"

definition crash_state :: game where
  "crash_state = run crash_events session0"

definition click_state :: game where
  "click_state = run [Tick 16, FirstFrame 16, Click 100 100] session0"

definition aged_state :: game where
  "aged_state = step (Tick 1190) click_state"

definition blast_state :: game where
  "blast_state = run [Frame 1206, Tick 17] aged_state"



definition crash2_state :: game where
  "crash2_state = run [Tick 16, Frame 34317, Tick 16] crash_state"

definition moved_state :: game where
  "moved_state = run [Move 300 200, Tick 100, Move 310 200, Tick 100] click_state"


definition wrap_events :: "event list" where
  "wrap_events = [Tick 30001, FirstFrame 30001, Tick 7750, Frame 37751]"

text \<open>
  A session with two activations, one far from both actors and one behind the Flyer. The
  second explosion reaches the Flyer when it has almost grown to its full size; in
  \<open>overlap_state\<close> it is flagged, and it still covers the spawn point of the Flyer.
\<close>

definition overlap_events :: "event list" where
  "overlap_events =
     [Tick 30001, FirstFrame 30001, Tick 6000, Frame 36001, Tick 100, Frame 36101,
      Click 700 100, Tick 80, Frame 36181, Click (- 255) 340, Tick 1100, Frame 37281,
      Tick 16, Frame 37297, Tick 16]"

definition overlap_state :: game where
  "overlap_state = run overlap_events session0"

section \<open>Frame lemmas: what each procedure leaves untouched\<close>

text \<open>
  Each procedure of the source writes a few variables only. The lemmas below record, per
  procedure, the variables it does not write; the proofs further down rewrite with them
  instead of unfolding the whole step.
\<close>

lemma missile_follow_frame [simp]:
  "running (missile_follow st) = running st"
  "width (missile_follow st) = width st"
  "height (missile_follow st) = height st"
  "rect (missile_follow st) = rect st"
  "mouse (missile_follow st) = mouse st"
  "firstClickHandled (missile_follow st) = firstClickHandled st"
  "stopTimer (missile_follow st) = stopTimer st"
  "explosions (missile_follow st) = explosions st"
  "boy (missile_follow st) = boy st"
  "bomber (missile_follow st) = bomber st"
  "score (missile_follow st) = score st"
  "scorePulse (missile_follow st) = scorePulse st"
  "popups (missile_follow st) = popups st"
  "startTime (missile_follow st) = startTime st"
  "lastTime (missile_follow st) = lastTime st"
  "quakeActive (missile_follow st) = quakeActive st"
  "quakeStart (missile_follow st) = quakeStart st"
  "reloadQueued (missile_follow st) = reloadQueued st"
  "now (missile_follow st) = now st"
  "timers (missile_follow st) = timers st"
  "nextTimer (missile_follow st) = nextTimer st"
  "reloads (missile_follow st) = reloads st"
  "groundY (missile_follow st) = groundY st"
  by (simp_all add: groundY_def missile_follow_def Let_def)

lemma spawnBomber_frame [simp]:
  "running (spawnBomber st) = running st"
  "width (spawnBomber st) = width st"
  "height (spawnBomber st) = height st"
  "rect (spawnBomber st) = rect st"
  "mouse (spawnBomber st) = mouse st"
  "lastMouse (spawnBomber st) = lastMouse st"
  "firstClickHandled (spawnBomber st) = firstClickHandled st"
  "stopTimer (spawnBomber st) = stopTimer st"
  "missile (spawnBomber st) = missile st"
  "explosions (spawnBomber st) = explosions st"
  "boy (spawnBomber st) = boy st"
  "score (spawnBomber st) = score st"
  "scorePulse (spawnBomber st) = scorePulse st"
  "popups (spawnBomber st) = popups st"
  "startTime (spawnBomber st) = startTime st"
  "lastTime (spawnBomber st) = lastTime st"
  "quakeActive (spawnBomber st) = quakeActive st"
  "quakeStart (spawnBomber st) = quakeStart st"
  "reloadQueued (spawnBomber st) = reloadQueued st"
  "now (spawnBomber st) = now st"
  "timers (spawnBomber st) = timers st"
  "nextTimer (spawnBomber st) = nextTimer st"
  "reloads (spawnBomber st) = reloads st"
  "groundY (spawnBomber st) = groundY st"
  by (simp_all add: groundY_def spawnBomber_def)

lemma spawnExplosion_frame [simp]:
  "running (spawnExplosion x y st) = running st"
  "width (spawnExplosion x y st) = width st"
  "height (spawnExplosion x y st) = height st"
  "rect (spawnExplosion x y st) = rect st"
  "mouse (spawnExplosion x y st) = mouse st"
  "lastMouse (spawnExplosion x y st) = lastMouse st"
  "firstClickHandled (spawnExplosion x y st) = firstClickHandled st"
  "stopTimer (spawnExplosion x y st) = stopTimer st"
  "missile (spawnExplosion x y st) = missile st"
  "boy (spawnExplosion x y st) = boy st"
  "bomber (spawnExplosion x y st) = bomber st"
  "score (spawnExplosion x y st) = score st"
  "scorePulse (spawnExplosion x y st) = scorePulse st"
  "popups (spawnExplosion x y st) = popups st"
  "startTime (spawnExplosion x y st) = startTime st"
  "lastTime (spawnExplosion x y st) = lastTime st"
  "quakeActive (spawnExplosion x y st) = quakeActive st"
  "quakeStart (spawnExplosion x y st) = quakeStart st"
  "reloadQueued (spawnExplosion x y st) = reloadQueued st"
  "now (spawnExplosion x y st) = now st"
  "timers (spawnExplosion x y st) = timers st"
  "nextTimer (spawnExplosion x y st) = nextTimer st"
  "reloads (spawnExplosion x y st) = reloads st"
  "groundY (spawnExplosion x y st) = groundY st"
  by (simp_all add: groundY_def spawnExplosion_def)

lemma spawn_actors_frame [simp]:
  "running (spawn_actors st) = running st"
  "width (spawn_actors st) = width st"
  "height (spawn_actors st) = height st"
  "rect (spawn_actors st) = rect st"
  "mouse (spawn_actors st) = mouse st"
  "lastMouse (spawn_actors st) = lastMouse st"
  "firstClickHandled (spawn_actors st) = firstClickHandled st"
  "stopTimer (spawn_actors st) = stopTimer st"
  "missile (spawn_actors st) = missile st"
  "explosions (spawn_actors st) = explosions st"
  "score (spawn_actors st) = score st"
  "scorePulse (spawn_actors st) = scorePulse st"
  "popups (spawn_actors st) = popups st"
  "startTime (spawn_actors st) = startTime st"
  "lastTime (spawn_actors st) = lastTime st"
  "quakeActive (spawn_actors st) = quakeActive st"
  "quakeStart (spawn_actors st) = quakeStart st"
  "reloadQueued (spawn_actors st) = reloadQueued st"
  "now (spawn_actors st) = now st"
  "timers (spawn_actors st) = timers st"
  "nextTimer (spawn_actors st) = nextTimer st"
  "reloads (spawn_actors st) = reloads st"
  "groundY (spawn_actors st) = groundY st"
  by (simp_all add: groundY_def spawn_actors_def Let_def)

lemma move_boy_frame [simp]:
  "running (move_boy dt st) = running st"
  "width (move_boy dt st) = width st"
  "height (move_boy dt st) = height st"
  "rect (move_boy dt st) = rect st"
  "mouse (move_boy dt st) = mouse st"
  "lastMouse (move_boy dt st) = lastMouse st"
  "firstClickHandled (move_boy dt st) = firstClickHandled st"
  "stopTimer (move_boy dt st) = stopTimer st"
  "missile (move_boy dt st) = missile st"
  "explosions (move_boy dt st) = explosions st"
  "bomber (move_boy dt st) = bomber st"
  "score (move_boy dt st) = score st"
  "scorePulse (move_boy dt st) = scorePulse st"
  "popups (move_boy dt st) = popups st"
  "startTime (move_boy dt st) = startTime st"
  "lastTime (move_boy dt st) = lastTime st"
  "quakeActive (move_boy dt st) = quakeActive st"
  "quakeStart (move_boy dt st) = quakeStart st"
  "reloadQueued (move_boy dt st) = reloadQueued st"
  "now (move_boy dt st) = now st"
  "timers (move_boy dt st) = timers st"
  "nextTimer (move_boy dt st) = nextTimer st"
  "reloads (move_boy dt st) = reloads st"
  "groundY (move_boy dt st) = groundY st"
  by (simp_all add: groundY_def move_boy_def Let_def)

lemma bomber_behavior_frame [simp]:
  "running (bomber_behavior dt st) = running st"
  "width (bomber_behavior dt st) = width st"
  "height (bomber_behavior dt st) = height st"
  "rect (bomber_behavior dt st) = rect st"
  "mouse (bomber_behavior dt st) = mouse st"
  "lastMouse (bomber_behavior dt st) = lastMouse st"
  "firstClickHandled (bomber_behavior dt st) = firstClickHandled st"
  "stopTimer (bomber_behavior dt st) = stopTimer st"
  "missile (bomber_behavior dt st) = missile st"
  "explosions (bomber_behavior dt st) = explosions st"
  "boy (bomber_behavior dt st) = boy st"
  "score (bomber_behavior dt st) = score st"
  "scorePulse (bomber_behavior dt st) = scorePulse st"
  "popups (bomber_behavior dt st) = popups st"
  "startTime (bomber_behavior dt st) = startTime st"
  "lastTime (bomber_behavior dt st) = lastTime st"
  "quakeActive (bomber_behavior dt st) = quakeActive st"
  "quakeStart (bomber_behavior dt st) = quakeStart st"
  "reloadQueued (bomber_behavior dt st) = reloadQueued st"
  "now (bomber_behavior dt st) = now st"
  "timers (bomber_behavior dt st) = timers st"
  "nextTimer (bomber_behavior dt st) = nextTimer st"
  "reloads (bomber_behavior dt st) = reloads st"
  "groundY (bomber_behavior dt st) = groundY st"
  by (simp_all add: groundY_def bomber_behavior_def Let_def)

lemma decay_frame [simp]:
  "running (decay dt st) = running st"
  "width (decay dt st) = width st"
  "height (decay dt st) = height st"
  "rect (decay dt st) = rect st"
  "mouse (decay dt st) = mouse st"
  "lastMouse (decay dt st) = lastMouse st"
  "firstClickHandled (decay dt st) = firstClickHandled st"
  "stopTimer (decay dt st) = stopTimer st"
  "missile (decay dt st) = missile st"
  "explosions (decay dt st) = explosions st"
  "boy (decay dt st) = boy st"
  "bomber (decay dt st) = bomber st"
  "score (decay dt st) = score st"
  "startTime (decay dt st) = startTime st"
  "lastTime (decay dt st) = lastTime st"
  "quakeActive (decay dt st) = quakeActive st"
  "quakeStart (decay dt st) = quakeStart st"
  "reloadQueued (decay dt st) = reloadQueued st"
  "now (decay dt st) = now st"
  "timers (decay dt st) = timers st"
  "nextTimer (decay dt st) = nextTimer st"
  "reloads (decay dt st) = reloads st"
  "groundY (decay dt st) = groundY st"
  by (simp_all add: groundY_def decay_def)

lemma integrate_frame [simp]:
  "running (integrate dt st) = running st"
  "width (integrate dt st) = width st"
  "height (integrate dt st) = height st"
  "rect (integrate dt st) = rect st"
  "mouse (integrate dt st) = mouse st"
  "firstClickHandled (integrate dt st) = firstClickHandled st"
  "stopTimer (integrate dt st) = stopTimer st"
  "explosions (integrate dt st) = explosions st"
  "score (integrate dt st) = score st"
  "startTime (integrate dt st) = startTime st"
  "lastTime (integrate dt st) = lastTime st"
  "quakeActive (integrate dt st) = quakeActive st"
  "quakeStart (integrate dt st) = quakeStart st"
  "reloadQueued (integrate dt st) = reloadQueued st"
  "now (integrate dt st) = now st"
  "timers (integrate dt st) = timers st"
  "nextTimer (integrate dt st) = nextTimer st"
  "reloads (integrate dt st) = reloads st"
  "groundY (integrate dt st) = groundY st"
  by (simp_all add: groundY_def integrate_def)

lemma triggerEarthquake_frame [simp]:
  "running (triggerEarthquake st) = running st"
  "width (triggerEarthquake st) = width st"
  "height (triggerEarthquake st) = height st"
  "rect (triggerEarthquake st) = rect st"
  "mouse (triggerEarthquake st) = mouse st"
  "lastMouse (triggerEarthquake st) = lastMouse st"
  "firstClickHandled (triggerEarthquake st) = firstClickHandled st"
  "stopTimer (triggerEarthquake st) = stopTimer st"
  "missile (triggerEarthquake st) = missile st"
  "explosions (triggerEarthquake st) = explosions st"
  "boy (triggerEarthquake st) = boy st"
  "bomber (triggerEarthquake st) = bomber st"
  "score (triggerEarthquake st) = score st"
  "scorePulse (triggerEarthquake st) = scorePulse st"
  "popups (triggerEarthquake st) = popups st"
  "startTime (triggerEarthquake st) = startTime st"
  "lastTime (triggerEarthquake st) = lastTime st"
  "now (triggerEarthquake st) = now st"
  "reloads (triggerEarthquake st) = reloads st"
  "groundY (triggerEarthquake st) = groundY st"
  by (simp_all add: groundY_def triggerEarthquake_def setTimeout_def Let_def)

lemma hit_bomber_frame [simp]:
  "running (hit_bomber i st) = running st"
  "width (hit_bomber i st) = width st"
  "height (hit_bomber i st) = height st"
  "rect (hit_bomber i st) = rect st"
  "mouse (hit_bomber i st) = mouse st"
  "lastMouse (hit_bomber i st) = lastMouse st"
  "firstClickHandled (hit_bomber i st) = firstClickHandled st"
  "stopTimer (hit_bomber i st) = stopTimer st"
  "missile (hit_bomber i st) = missile st"
  "boy (hit_bomber i st) = boy st"
  "startTime (hit_bomber i st) = startTime st"
  "lastTime (hit_bomber i st) = lastTime st"
  "quakeActive (hit_bomber i st) = quakeActive st"
  "quakeStart (hit_bomber i st) = quakeStart st"
  "reloadQueued (hit_bomber i st) = reloadQueued st"
  "now (hit_bomber i st) = now st"
  "reloads (hit_bomber i st) = reloads st"
  "groundY (hit_bomber i st) = groundY st"
  by (simp_all add: groundY_def hit_bomber_def setTimeout_def Let_def)

lemma hit_boy_frame [simp]:
  "running (hit_boy i st) = running st"
  "width (hit_boy i st) = width st"
  "height (hit_boy i st) = height st"
  "rect (hit_boy i st) = rect st"
  "mouse (hit_boy i st) = mouse st"
  "lastMouse (hit_boy i st) = lastMouse st"
  "firstClickHandled (hit_boy i st) = firstClickHandled st"
  "stopTimer (hit_boy i st) = stopTimer st"
  "missile (hit_boy i st) = missile st"
  "bomber (hit_boy i st) = bomber st"
  "score (hit_boy i st) = score st"
  "scorePulse (hit_boy i st) = scorePulse st"
  "popups (hit_boy i st) = popups st"
  "startTime (hit_boy i st) = startTime st"
  "lastTime (hit_boy i st) = lastTime st"
  "now (hit_boy i st) = now st"
  "reloads (hit_boy i st) = reloads st"
  "groundY (hit_boy i st) = groundY st"
  by (simp_all add: groundY_def hit_boy_def Let_def)

lemma collide_body_frame [simp]:
  "running (collide_body i st) = running st"
  "width (collide_body i st) = width st"
  "height (collide_body i st) = height st"
  "rect (collide_body i st) = rect st"
  "mouse (collide_body i st) = mouse st"
  "lastMouse (collide_body i st) = lastMouse st"
  "firstClickHandled (collide_body i st) = firstClickHandled st"
  "stopTimer (collide_body i st) = stopTimer st"
  "missile (collide_body i st) = missile st"
  "startTime (collide_body i st) = startTime st"
  "lastTime (collide_body i st) = lastTime st"
  "now (collide_body i st) = now st"
  "reloads (collide_body i st) = reloads st"
  "groundY (collide_body i st) = groundY st"
  by (simp_all add: groundY_def collide_body_def)

lemma clearTimeout_frame [simp]:
  "running (clearTimeout h st) = running st"
  "width (clearTimeout h st) = width st"
  "height (clearTimeout h st) = height st"
  "rect (clearTimeout h st) = rect st"
  "mouse (clearTimeout h st) = mouse st"
  "lastMouse (clearTimeout h st) = lastMouse st"
  "firstClickHandled (clearTimeout h st) = firstClickHandled st"
  "stopTimer (clearTimeout h st) = stopTimer st"
  "missile (clearTimeout h st) = missile st"
  "explosions (clearTimeout h st) = explosions st"
  "boy (clearTimeout h st) = boy st"
  "bomber (clearTimeout h st) = bomber st"
  "score (clearTimeout h st) = score st"
  "scorePulse (clearTimeout h st) = scorePulse st"
  "popups (clearTimeout h st) = popups st"
  "startTime (clearTimeout h st) = startTime st"
  "lastTime (clearTimeout h st) = lastTime st"
  "quakeActive (clearTimeout h st) = quakeActive st"
  "quakeStart (clearTimeout h st) = quakeStart st"
  "reloadQueued (clearTimeout h st) = reloadQueued st"
  "now (clearTimeout h st) = now st"
  "nextTimer (clearTimeout h st) = nextTimer st"
  "reloads (clearTimeout h st) = reloads st"
  "groundY (clearTimeout h st) = groundY st"
  by (simp_all add: groundY_def clearTimeout_def)

lemma draw_frame [simp]:
  "running (draw dt st) = running st"
  "width (draw dt st) = width st"
  "height (draw dt st) = height st"
  "rect (draw dt st) = rect st"
  "mouse (draw dt st) = mouse st"
  "lastMouse (draw dt st) = lastMouse st"
  "firstClickHandled (draw dt st) = firstClickHandled st"
  "stopTimer (draw dt st) = stopTimer st"
  "missile (draw dt st) = missile st"
  "score (draw dt st) = score st"
  "scorePulse (draw dt st) = scorePulse st"
  "popups (draw dt st) = popups st"
  "startTime (draw dt st) = startTime st"
  "lastTime (draw dt st) = lastTime st"
  "quakeActive (draw dt st) = quakeActive st"
  "quakeStart (draw dt st) = quakeStart st"
  "reloadQueued (draw dt st) = reloadQueued st"
  "now (draw dt st) = now st"
  "timers (draw dt st) = timers st"
  "nextTimer (draw dt st) = nextTimer st"
  "reloads (draw dt st) = reloads st"
  "groundY (draw dt st) = groundY st"
  by (simp_all add: groundY_def draw_def)

lemma cleanup_frame [simp]:
  "running (cleanup st) = running st"
  "width (cleanup st) = width st"
  "height (cleanup st) = height st"
  "rect (cleanup st) = rect st"
  "mouse (cleanup st) = mouse st"
  "lastMouse (cleanup st) = lastMouse st"
  "firstClickHandled (cleanup st) = firstClickHandled st"
  "stopTimer (cleanup st) = stopTimer st"
  "missile (cleanup st) = missile st"
  "boy (cleanup st) = boy st"
  "bomber (cleanup st) = bomber st"
  "score (cleanup st) = score st"
  "scorePulse (cleanup st) = scorePulse st"
  "popups (cleanup st) = popups st"
  "startTime (cleanup st) = startTime st"
  "lastTime (cleanup st) = lastTime st"
  "quakeActive (cleanup st) = quakeActive st"
  "quakeStart (cleanup st) = quakeStart st"
  "reloadQueued (cleanup st) = reloadQueued st"
  "now (cleanup st) = now st"
  "timers (cleanup st) = timers st"
  "nextTimer (cleanup st) = nextTimer st"
  "reloads (cleanup st) = reloads st"
  "groundY (cleanup st) = groundY st"
  by (simp_all add: groundY_def cleanup_def)

lemma onMouseMove_frame [simp]:
  "running (onMouseMove cx cy st) = running st"
  "width (onMouseMove cx cy st) = width st"
  "height (onMouseMove cx cy st) = height st"
  "rect (onMouseMove cx cy st) = rect st"
  "lastMouse (onMouseMove cx cy st) = lastMouse st"
  "firstClickHandled (onMouseMove cx cy st) = firstClickHandled st"
  "missile (onMouseMove cx cy st) = missile st"
  "explosions (onMouseMove cx cy st) = explosions st"
  "boy (onMouseMove cx cy st) = boy st"
  "bomber (onMouseMove cx cy st) = bomber st"
  "score (onMouseMove cx cy st) = score st"
  "scorePulse (onMouseMove cx cy st) = scorePulse st"
  "popups (onMouseMove cx cy st) = popups st"
  "startTime (onMouseMove cx cy st) = startTime st"
  "lastTime (onMouseMove cx cy st) = lastTime st"
  "quakeActive (onMouseMove cx cy st) = quakeActive st"
  "quakeStart (onMouseMove cx cy st) = quakeStart st"
  "reloadQueued (onMouseMove cx cy st) = reloadQueued st"
  "now (onMouseMove cx cy st) = now st"
  "reloads (onMouseMove cx cy st) = reloads st"
  "groundY (onMouseMove cx cy st) = groundY st"
  by (simp_all add: groundY_def onMouseMove_def setTimeout_def Let_def)

lemma onClick_frame [simp]:
  "running (onClick cx cy st) = running st"
  "width (onClick cx cy st) = width st"
  "height (onClick cx cy st) = height st"
  "rect (onClick cx cy st) = rect st"
  "mouse (onClick cx cy st) = mouse st"
  "lastMouse (onClick cx cy st) = lastMouse st"
  "stopTimer (onClick cx cy st) = stopTimer st"
  "missile (onClick cx cy st) = missile st"
  "boy (onClick cx cy st) = boy st"
  "bomber (onClick cx cy st) = bomber st"
  "score (onClick cx cy st) = score st"
  "scorePulse (onClick cx cy st) = scorePulse st"
  "popups (onClick cx cy st) = popups st"
  "startTime (onClick cx cy st) = startTime st"
  "lastTime (onClick cx cy st) = lastTime st"
  "quakeActive (onClick cx cy st) = quakeActive st"
  "quakeStart (onClick cx cy st) = quakeStart st"
  "reloadQueued (onClick cx cy st) = reloadQueued st"
  "now (onClick cx cy st) = now st"
  "timers (onClick cx cy st) = timers st"
  "nextTimer (onClick cx cy st) = nextTimer st"
  "reloads (onClick cx cy st) = reloads st"
  "groundY (onClick cx cy st) = groundY st"
  by (simp_all add: groundY_def onClick_def Let_def)

lemma resize_frame [simp]:
  "running (resize iw ih st) = running st"
  "rect (resize iw ih st) = rect st"
  "mouse (resize iw ih st) = mouse st"
  "lastMouse (resize iw ih st) = lastMouse st"
  "firstClickHandled (resize iw ih st) = firstClickHandled st"
  "stopTimer (resize iw ih st) = stopTimer st"
  "missile (resize iw ih st) = missile st"
  "explosions (resize iw ih st) = explosions st"
  "boy (resize iw ih st) = boy st"
  "bomber (resize iw ih st) = bomber st"
  "score (resize iw ih st) = score st"
  "scorePulse (resize iw ih st) = scorePulse st"
  "popups (resize iw ih st) = popups st"
  "startTime (resize iw ih st) = startTime st"
  "lastTime (resize iw ih st) = lastTime st"
  "quakeActive (resize iw ih st) = quakeActive st"
  "quakeStart (resize iw ih st) = quakeStart st"
  "reloadQueued (resize iw ih st) = reloadQueued st"
  "now (resize iw ih st) = now st"
  "timers (resize iw ih st) = timers st"
  "nextTimer (resize iw ih st) = nextTimer st"
  "reloads (resize iw ih st) = reloads st"
  by (simp_all add: groundY_def resize_def)

lemma run_action_frame [simp]:
  "running (run_action a st) = running st"
  "width (run_action a st) = width st"
  "height (run_action a st) = height st"
  "rect (run_action a st) = rect st"
  "mouse (run_action a st) = mouse st"
  "lastMouse (run_action a st) = lastMouse st"
  "firstClickHandled (run_action a st) = firstClickHandled st"
  "stopTimer (run_action a st) = stopTimer st"
  "missile (run_action a st) = missile st"
  "boy (run_action a st) = boy st"
  "score (run_action a st) = score st"
  "scorePulse (run_action a st) = scorePulse st"
  "popups (run_action a st) = popups st"
  "startTime (run_action a st) = startTime st"
  "lastTime (run_action a st) = lastTime st"
  "quakeActive (run_action a st) = quakeActive st"
  "quakeStart (run_action a st) = quakeStart st"
  "reloadQueued (run_action a st) = reloadQueued st"
  "now (run_action a st) = now st"
  "timers (run_action a st) = timers st"
  "nextTimer (run_action a st) = nextTimer st"
  "groundY (run_action a st) = groundY st"
  by (simp_all add: groundY_def run_action_def split: timer_action.split)

lemma unmount_frame [simp]:
  "width (unmount st) = width st"
  "height (unmount st) = height st"
  "rect (unmount st) = rect st"
  "mouse (unmount st) = mouse st"
  "lastMouse (unmount st) = lastMouse st"
  "firstClickHandled (unmount st) = firstClickHandled st"
  "stopTimer (unmount st) = stopTimer st"
  "missile (unmount st) = missile st"
  "explosions (unmount st) = explosions st"
  "boy (unmount st) = boy st"
  "bomber (unmount st) = bomber st"
  "score (unmount st) = score st"
  "scorePulse (unmount st) = scorePulse st"
  "popups (unmount st) = popups st"
  "startTime (unmount st) = startTime st"
  "lastTime (unmount st) = lastTime st"
  "quakeActive (unmount st) = quakeActive st"
  "quakeStart (unmount st) = quakeStart st"
  "reloadQueued (unmount st) = reloadQueued st"
  "now (unmount st) = now st"
  "nextTimer (unmount st) = nextTimer st"
  "reloads (unmount st) = reloads st"
  "groundY (unmount st) = groundY st"
  by (simp_all add: groundY_def unmount_def Let_def)

lemma collide_invariant:
  assumes body: "\<And>j s. P s \<Longrightarrow> j < length (explosions s) \<Longrightarrow> P (collide_body j s)"
    and start: "P st"
  shows "P (collide i st)"
  using start
proof (induction i st rule: collide.induct)
  case (1 i st)
  show ?case
    by (subst collide.simps) (simp add: 1 body)
qed

lemma collide_frame [simp]:
  "running (collide i st) = running st"
  "width (collide i st) = width st"
  "height (collide i st) = height st"
  "rect (collide i st) = rect st"
  "mouse (collide i st) = mouse st"
  "lastMouse (collide i st) = lastMouse st"
  "firstClickHandled (collide i st) = firstClickHandled st"
  "stopTimer (collide i st) = stopTimer st"
  "missile (collide i st) = missile st"
  "startTime (collide i st) = startTime st"
  "lastTime (collide i st) = lastTime st"
  "now (collide i st) = now st"
  "reloads (collide i st) = reloads st"
  "groundY (collide i st) = groundY st"
  by (rule collide_invariant; simp)+

lemma run_append: "run (xs @ ys) st = run ys (run xs st)"
  by (induction xs arbitrary: st) simp_all

text \<open>The overlap test without the square root, for evaluation and arithmetic.\<close>

lemma circleHit_iff:
  "circleHit ex cx cy radius \<longleftrightarrow>
     0 \<le> ex_r ex + radius \<and> (ex_x ex - cx)\<^sup>2 + (ex_y ex - cy)\<^sup>2 \<le> (ex_r ex + radius)\<^sup>2"
proof -
  let ?a = "(ex_x ex - cx)\<^sup>2 + (ex_y ex - cy)\<^sup>2" and ?b = "ex_r ex + radius"
  have a: "0 \<le> ?a" by simp
  have "sqrt ?a \<le> ?b \<longleftrightarrow> 0 \<le> ?b \<and> ?a \<le> ?b\<^sup>2"
  proof
    assume le: "sqrt ?a \<le> ?b"
    have "0 \<le> sqrt ?a" using a by simp
    with le have b: "0 \<le> ?b" by linarith
    have "(sqrt ?a)\<^sup>2 \<le> ?b\<^sup>2"
      using le \<open>0 \<le> sqrt ?a\<close> by (rule power_mono)
    with a b show "0 \<le> ?b \<and> ?a \<le> ?b\<^sup>2" by simp
  next
    assume "0 \<le> ?b \<and> ?a \<le> ?b\<^sup>2"
    then show "sqrt ?a \<le> ?b" by (simp add: real_le_lsqrt)
  qed
  then show ?thesis
    by (simp add: circleHit_def hypot_def Let_def)
qed

lemma circleHit_eval:
  "circleHit ex cx cy radius \<longleftrightarrow>
     0 \<le> ex_r ex + radius \<and>
     (ex_x ex - cx) * (ex_x ex - cx) + (ex_y ex - cy) * (ex_y ex - cy)
       \<le> (ex_r ex + radius) * (ex_r ex + radius)"
  by (simp add: circleHit_iff power2_eq_square)

lemmas eval_defs = step_def loop_def update_def integrate_def decay_def bomber_behavior_def
  move_boy_def spawn_actors_def missile_follow_def draw_def cleanup_def drawActor_def
  drawNuclearExplosion_def spawnBomber_def spawnExplosion_def groundY_def init_def
  onClick_def onMouseMove_def setTimeout_def clearTimeout_def fire_def run_action_def
  collide_body_def hit_boy_def hit_bomber_def bomber_cond_def boy_cond_def
  triggerEarthquake_def clamp_def quakeDuration_def unmount_def resize_def shock_radius_def
  new_explosion_def circleHit_eval qualifies_def session0_def collide.simps Let_def

section \<open>Properties of the simulation\<close>

subsection \<open>The Runner's position\<close>

lemma hit_boy_geom [simp]:
  "a_x (boy (hit_boy i st)) = a_x (boy st)"
  "a_y (boy (hit_boy i st)) = a_y (boy st)"
  "a_w (boy (hit_boy i st)) = a_w (boy st)"
  "a_h (boy (hit_boy i st)) = a_h (boy st)"
  by (simp_all add: hit_boy_def Let_def)

lemma collide_body_boy_geom [simp]:
  "a_x (boy (collide_body i st)) = a_x (boy st)"
  "a_y (boy (collide_body i st)) = a_y (boy st)"
  "a_w (boy (collide_body i st)) = a_w (boy st)"
  "a_h (boy (collide_body i st)) = a_h (boy st)"
  by (simp_all add: collide_body_def)

lemma collide_boy_geom [simp]:
  "a_x (boy (collide i st)) = a_x (boy st)"
  "a_y (boy (collide i st)) = a_y (boy st)"
  "a_w (boy (collide i st)) = a_w (boy st)"
  "a_h (boy (collide i st)) = a_h (boy st)"
  by (rule collide_invariant; simp)+

lemma drawActor_geom [simp]:
  "a_x (drawActor dt a) = a_x a"
  "a_y (drawActor dt a) = a_y a"
  "a_w (drawActor dt a) = a_w a"
  "a_h (drawActor dt a) = a_h a"
  "a_alive (drawActor dt a) = a_alive a"
  by (simp_all add: drawActor_def)

lemma spawn_actors_boy_alive: "a_alive (boy st) \<Longrightarrow> boy (spawn_actors st) = boy st"
  by (simp add: spawn_actors_def Let_def)

lemma move_boy_alive:
  "a_alive (boy st) \<Longrightarrow>
   boy (move_boy dt st) =
     (boy st)\<lparr>a_x := (if a_x (boy st) + 0.12 * dt - a_w (boy st) / 2 > width st + 40
                        then - 80 else a_x (boy st) + 0.12 * dt)\<rparr>"
  by (simp add: move_boy_def Let_def)

lemma integrate_boy: "boy (integrate dt st) = boy (move_boy dt (spawn_actors st))"
  by (simp add: integrate_def move_boy_def spawn_actors_def Let_def)

lemma frame_boy_geom:
  assumes "running st" and "reloads st = 0"
  shows "a_x (boy (step (Frame t) st)) = a_x (boy (integrate (t - lastTime st) (st\<lparr>lastTime := t\<rparr>)))"
    and "a_y (boy (step (Frame t) st)) = a_y (boy (integrate (t - lastTime st) (st\<lparr>lastTime := t\<rparr>)))"
  using assms by (simp_all add: step_def loop_def draw_def update_def Let_def)

text \<open>
  C7 (amended). An alive Runner advances by \<open>0.12 \<sqdot> dt\<close> in a frame and keeps its height; it
  is put back to \<open>x = -80\<close> exactly when its advanced position, less half its width, lies
  beyond \<open>width + 40\<close>. For the Runner's width 28 the threshold is \<open>width + 54\<close>, not
  \<open>width + 40\<close>.
\<close>

theorem runner_advance_and_wrap:
  assumes "running st" and "reloads st = 0" and "a_alive (boy st)"
  shows "a_x (boy (step (Frame t) st)) =
           (if a_x (boy st) + 0.12 * (t - lastTime st) - a_w (boy st) / 2 > width st + 40
            then - 80 else a_x (boy st) + 0.12 * (t - lastTime st))
         \<and> a_y (boy (step (Frame t) st)) = a_y (boy st)"
proof -
  let ?s1 = "st\<lparr>lastTime := t\<rparr>"
  have "a_alive (boy (spawn_actors ?s1))"
    using assms(3) by (simp add: spawn_actors_boy_alive)
  then have "boy (integrate (t - lastTime st) ?s1) =
     (boy st)\<lparr>a_x := (if a_x (boy st) + 0.12 * (t - lastTime st) - a_w (boy st) / 2 > width st + 40
                        then - 80 else a_x (boy st) + 0.12 * (t - lastTime st))\<rparr>"
    using assms(3) by (simp add: integrate_boy move_boy_alive spawn_actors_boy_alive)
  then show ?thesis
    using assms(1,2) by (simp add: frame_boy_geom)
qed

theorem runner_advance_and_wrap_witness:
  "running (run wrap_events session0) \<and> reloads (run wrap_events session0) = 0 \<and>
   a_alive (boy (run wrap_events session0)) \<and> a_x (boy (run wrap_events session0)) = 850 \<and>
   a_x (boy (step (Frame 37851) (run wrap_events session0))) = - 80 \<and>
   a_y (boy (step (Frame 37851) (run wrap_events session0))) = 532"
proof -
  have h: "running (run wrap_events session0)" "reloads (run wrap_events session0) = 0"
    "a_alive (boy (run wrap_events session0))"
    and v: "a_x (boy (run wrap_events session0)) = 850" "a_w (boy (run wrap_events session0)) = 28"
      "a_y (boy (run wrap_events session0)) = 532"
      "width (run wrap_events session0) = 800" "lastTime (run wrap_events session0) = 37751"
    by (simp_all add: wrap_events_def session0_def eval_defs cong: let_weak_cong)
  from runner_advance_and_wrap [OF h, of 37851] h v
  show ?thesis by simp
qed

text \<open>
  C7 as stated fails: a Runner at \<open>x = width + 41\<close> that advances by a frame of 16 ms is
  at \<open>width + 42.92\<close> afterwards, not at the spawn coordinate.
\<close>

theorem runner_wrap_counterexample:
  "a_alive (boy (run edge_events session0)) \<and>
   a_x (boy (run edge_events session0)) = width (run edge_events session0) + 41 \<and>
   a_x (boy (run (edge_events @ [Tick 16, Frame 37692]) session0)) = 842.92 \<and>
   a_x (boy (run (edge_events @ [Tick 16, Frame 37692]) session0)) \<noteq> - 80"
  by (simp add: edge_events_def session0_def eval_defs cong: let_weak_cong)

subsection \<open>The Flyer branch of the collision loop\<close>


lemma hit_bomber_miss: "\<not> bomber_cond i st \<Longrightarrow> hit_bomber i st = st"
  by (simp add: hit_bomber_def)

lemma hit_bomber_hit:
  "bomber_cond i st \<Longrightarrow>
   hit_bomber i st =
     st\<lparr>explosions := (explosions st)[i := (explosions st ! i)\<lparr>hitBomber := True\<rparr>]
                        @ [new_explosion (a_x (bomber st)) (a_y (bomber st)) (now st)],
        score := score st + 1,
        scorePulse := 1,
        popups := popups st @ [\<lparr>p_x = a_x (bomber st), p_y = a_y (bomber st) - 20,
                                 p_text = ''+1'', p_life = 0, p_maxLife = 900\<rparr>],
        bomber := (bomber st)\<lparr>a_alive := False\<rparr>,
        timers := timers st @ [\<lparr>t_id = nextTimer st, fireAt = now st + 1200,
                                 action = RespawnBomber\<rparr>],
        nextTimer := Suc (nextTimer st)\<rparr>"
  by (simp add: hit_bomber_def spawnExplosion_def setTimeout_def Let_def)











lemma no_hitBoy_simps [simp]:
  "no_hitBoy (ex\<lparr>hitBomber := b\<rparr>) = (no_hitBoy ex)\<lparr>hitBomber := b\<rparr>"
  "no_hitBoy (ex\<lparr>hitBoy := b\<rparr>) = no_hitBoy ex"
  "no_hitBoy (new_explosion x y t) = new_explosion x y t"
  "hitBomber (no_hitBoy ex) = hitBomber ex"
  by (cases ex; simp add: no_hitBoy_def new_explosion_def)+




subsection \<open>The score\<close>

lemma count_update_same:
  "P y = P (xs ! j) \<Longrightarrow> length (filter P (xs[j := y])) = length (filter P xs)"
  by (induction xs arbitrary: j) (auto split: nat.split)

lemma count_update_set:
  "j < length xs \<Longrightarrow> \<not> P (xs ! j) \<Longrightarrow> P y \<Longrightarrow>
   length (filter P (xs[j := y])) = Suc (length (filter P xs))"
  by (induction xs arbitrary: j) (auto split: nat.split)

lemma nth_update_field: "f y = f (xs ! j) \<Longrightarrow> f (xs[j := y] ! k) = f (xs ! k)"
  by (cases "j < length xs") (auto simp: nth_list_update list_update_beyond not_less)

lemma hit_boy_score_flags:
  "score (hit_boy j st) = score st"
  "flagged (hit_boy j st) = flagged st"
  "length (explosions (hit_boy j st)) = length (explosions st)"
  "hitBomber (explosions (hit_boy j st) ! k) = hitBomber (explosions st ! k)"
  by (simp_all add: hit_boy_def flagged_def Let_def count_update_same nth_update_field)

lemma hit_bomber_score_flags:
  assumes "j < length (explosions st)"
  shows "int (flagged (hit_bomber j st)) - score (hit_bomber j st) = int (flagged st) - score st"
    and "score st \<le> score (hit_bomber j st)"
    and "length (explosions st) \<le> length (explosions (hit_bomber j st))"
    and "k < length (explosions st) \<Longrightarrow> hitBomber (explosions st ! k) \<Longrightarrow>
         hitBomber (explosions (hit_bomber j st) ! k)"
proof -
  show "int (flagged (hit_bomber j st)) - score (hit_bomber j st) = int (flagged st) - score st"
  proof (cases "bomber_cond j st")
    case True
    then have "\<not> hitBomber (explosions st ! j)" by (simp add: bomber_cond_def Let_def)
    with True assms show ?thesis
      by (simp add: hit_bomber_hit flagged_def count_update_set new_explosion_def)
  qed (simp add: hit_bomber_miss)
  show "score st \<le> score (hit_bomber j st)"
    by (cases "bomber_cond j st") (simp_all add: hit_bomber_hit hit_bomber_miss)
  show "length (explosions st) \<le> length (explosions (hit_bomber j st))"
    by (cases "bomber_cond j st") (simp_all add: hit_bomber_hit hit_bomber_miss)
  show "hitBomber (explosions (hit_bomber j st) ! k)"
    if "k < length (explosions st)" "hitBomber (explosions st ! k)"
    using that assms
    by (cases "bomber_cond j st")
       (simp_all add: hit_bomber_hit hit_bomber_miss nth_append nth_list_update)
qed

lemma collide_body_score_flags:
  assumes "j < length (explosions st)"
  shows "int (flagged (collide_body j st)) - score (collide_body j st) = int (flagged st) - score st"
    and "score st \<le> score (collide_body j st)"
    and "length (explosions st) \<le> length (explosions (collide_body j st))"
    and "k < length (explosions st) \<Longrightarrow> hitBomber (explosions st ! k) \<Longrightarrow>
         hitBomber (explosions (collide_body j st) ! k)"
  using hit_bomber_score_flags [OF assms]
  by (simp_all add: collide_body_def hit_boy_score_flags)

lemma collide_score_count:
  "int (flagged (collide i st)) - score (collide i st) = int (flagged st) - score st"
  by (rule collide_invariant) (simp_all add: collide_body_score_flags)

lemma collide_score_mono: "score st \<le> score (collide i st)"
proof (rule collide_invariant [where P = "\<lambda>s. score st \<le> score s"])
  fix j and s :: game
  assume "score st \<le> score s" and "j < length (explosions s)"
  then show "score st \<le> score (collide_body j s)"
    using collide_body_score_flags(2) [of j s] by simp
qed simp

lemma collide_flags_kept:
  "length (explosions st) \<le> length (explosions (collide i st)) \<and>
   (\<forall>k<length (explosions st). hitBomber (explosions st ! k) \<longrightarrow>
        hitBomber (explosions (collide i st) ! k))"
proof (rule collide_invariant [where P = "\<lambda>s. length (explosions st) \<le> length (explosions s) \<and>
   (\<forall>k<length (explosions st). hitBomber (explosions st ! k) \<longrightarrow> hitBomber (explosions s ! k))"])
  fix j and s :: game
  assume inv: "length (explosions st) \<le> length (explosions s) \<and>
   (\<forall>k<length (explosions st). hitBomber (explosions st ! k) \<longrightarrow> hitBomber (explosions s ! k))"
    and j: "j < length (explosions s)"
  show "length (explosions st) \<le> length (explosions (collide_body j s)) \<and>
   (\<forall>k<length (explosions st). hitBomber (explosions st ! k) \<longrightarrow>
        hitBomber (explosions (collide_body j s) ! k))"
    using inv collide_body_score_flags(3,4) [OF j]
    by (meson le_trans less_le_trans)
qed simp

lemma score_fire [simp]: "score (fire h st) = score st"
  by (simp add: fire_def split: option.split)

lemma score_loop: "score st \<le> score (loop t st)"
  using collide_score_mono [of "integrate (t - lastTime st) (st\<lparr>lastTime := t\<rparr>)" 0]
  by (simp add: loop_def update_def Let_def)

lemma score_step: "score st \<le> score (step e st)"
  using score_loop [of st] score_loop [of "st\<lparr>lastTime := t\<rparr>" for t]
  by (cases e) (simp_all add: step_def)

lemma score_run: "score st \<le> score (run evs st)"
proof (induction evs arbitrary: st)
  case (Cons e evs)
  have "score st \<le> score (step e st)" by (rule score_step)
  also have "\<dots> \<le> score (run evs (step e st))" by (rule Cons.IH)
  finally show ?case by simp
qed simp

subsection \<open>The reload callback\<close>

lemma pending_clearTimeout:
  "length (pending act (clearTimeout h st)) \<le> length (pending act st)"
proof -
  have "pending act (clearTimeout h st) = filter (\<lambda>t. t_id t \<noteq> h) (pending act st)"
    by (simp add: pending_def clearTimeout_def conj_commute)
  then show ?thesis by simp
qed

lemma pending_frame:
  "timers s = timers st \<Longrightarrow> pending act s = pending act st"
  by (simp add: pending_def)

lemma reload_same:
  assumes "reloadQueued s = reloadQueued st" and "reloads s = reloads st"
    and "timers s = timers st"
  shows "reload_inv s = reload_inv st" and "reload_closed n s = reload_closed n st"
  using assms by (simp_all add: reload_inv_def reload_closed_def pending_def)

lemma triggerEarthquake_queued:
  "reloadQueued (triggerEarthquake st)"
  "reloads (triggerEarthquake st) = reloads st"
  "pending Reload (triggerEarthquake st) =
     (if reloadQueued st then pending Reload st
      else pending Reload st @
           [\<lparr>t_id = nextTimer st, fireAt = now st + (quakeDuration + 300), action = Reload\<rparr>])"
  by (simp_all add: triggerEarthquake_def pending_def setTimeout_def Let_def)

lemma triggerEarthquake_reload:
  "reload_inv st \<Longrightarrow> reload_inv (triggerEarthquake st)"
  "reload_closed n st \<Longrightarrow> reload_closed n (triggerEarthquake st)"
  by (auto simp: reload_inv_def reload_closed_def triggerEarthquake_queued split: if_splits)

lemma hit_boy_reload:
  "reload_inv st \<Longrightarrow> reload_inv (hit_boy j st)"
  "reload_closed n st \<Longrightarrow> reload_closed n (hit_boy j st)"
proof -
  let ?s = "st\<lparr>explosions := (explosions st)[j := (explosions st ! j)\<lparr>hitBoy := True\<rparr>],
                boy := (boy st)\<lparr>a_alive := False\<rparr>\<rparr>"
  have eq: "hit_boy j st = (if boy_cond j st then triggerEarthquake ?s else st)"
    by (simp add: hit_boy_def Let_def)
  have same: "reload_inv ?s = reload_inv st" "reload_closed n ?s = reload_closed n st"
    by (rule reload_same; simp)+
  show "reload_inv st \<Longrightarrow> reload_inv (hit_boy j st)"
    using triggerEarthquake_reload(1) [of ?s] by (simp add: eq same)
  show "reload_closed n st \<Longrightarrow> reload_closed n (hit_boy j st)"
    using triggerEarthquake_reload(2) [of n ?s] by (simp add: eq same)
qed

lemma hit_bomber_pending_reload:
  "pending Reload (hit_bomber j st) = pending Reload st"
  by (cases "bomber_cond j st") (simp_all add: hit_bomber_hit hit_bomber_miss pending_def)

lemma hit_bomber_reload:
  "reload_inv (hit_bomber j st) = reload_inv st"
  "reload_closed n (hit_bomber j st) = reload_closed n st"
  by (simp_all add: reload_inv_def reload_closed_def hit_bomber_pending_reload)

lemma collide_body_reload:
  "reload_inv st \<Longrightarrow> reload_inv (collide_body j st)"
  "reload_closed n st \<Longrightarrow> reload_closed n (collide_body j st)"
  by (simp_all add: collide_body_def hit_boy_reload hit_bomber_reload)

lemma collide_reload:
  "reload_inv st \<Longrightarrow> reload_inv (collide i st)"
  "reload_closed n st \<Longrightarrow> reload_closed n (collide i st)"
  by (rule collide_invariant; simp add: collide_body_reload)+

lemma loop_reload:
  "reload_inv st \<Longrightarrow> reload_inv (loop t st)"
  "reload_closed n st \<Longrightarrow> reload_closed n (loop t st)"
proof -
  let ?s0 = "integrate (t - lastTime st) (st\<lparr>lastTime := t\<rparr>)"
  let ?u = "collide 0 ?s0"
  have a: "reload_inv ?s0 = reload_inv st" "reload_closed n ?s0 = reload_closed n st"
    by (rule reload_same; simp)+
  have "reload_inv (cleanup (draw d ?u)) = reload_inv ?u"
    "reload_closed n (cleanup (draw d ?u)) = reload_closed n ?u" for d
    by (rule reload_same; simp)+
  then have b: "reload_inv (loop t st) = (if running st then reload_inv ?u else reload_inv st)"
    "reload_closed n (loop t st) =
       (if running st then reload_closed n ?u else reload_closed n st)"
    by (simp_all add: loop_def update_def Let_def)
  show "reload_inv st \<Longrightarrow> reload_inv (loop t st)"
    using collide_reload(1) [of ?s0 0] by (simp add: a b)
  show "reload_closed n st \<Longrightarrow> reload_closed n (loop t st)"
    using collide_reload(2) [of n ?s0 0] by (simp add: a b)
qed

lemma find_SomeD: "find P xs = Some x \<Longrightarrow> x \<in> set xs \<and> P x"
  by (induction xs) (auto split: if_splits)

lemma pending_fired:
  assumes "find (\<lambda>t. t_id t = h) (timers st) = Some t" and "action t = act"
  shows "length (pending act (clearTimeout h st)) < length (pending act st)"
proof -
  from find_SomeD [OF assms(1)] assms(2)
  have "t \<in> set (pending act st)" "\<not> t_id t \<noteq> h"
    by (simp_all add: pending_def)
  then have "length (filter (\<lambda>t. t_id t \<noteq> h) (pending act st)) < length (pending act st)"
    by (rule length_filter_less)
  moreover have "pending act (clearTimeout h st) = filter (\<lambda>t. t_id t \<noteq> h) (pending act st)"
    by (simp add: pending_def clearTimeout_def conj_commute)
  ultimately show ?thesis by simp
qed

lemma fire_cases:
  "fire h st = st \<or>
   (\<exists>t. find (\<lambda>t. t_id t = h) (timers st) = Some t \<and> fireAt t \<le> now st \<and>
        fire h st = run_action (action t) (clearTimeout h st))"
  by (simp add: fire_def split: option.split)

lemma run_action_reloads:
  "reloads (run_action a st) = (if a = Reload then Suc (reloads st) else reloads st)"
  by (cases a) (simp_all add: run_action_def spawnExplosion_def spawnBomber_def)

lemma fire_reload:
  "reload_inv st \<Longrightarrow> reload_inv (fire h st)"
  "reload_closed n st \<Longrightarrow> reload_closed n (fire h st)"
proof -
  consider "fire h st = st"
    | t where "find (\<lambda>t. t_id t = h) (timers st) = Some t"
        "fire h st = run_action (action t) (clearTimeout h st)"
    using fire_cases [of h st] by blast
  then have "(reload_inv st \<longrightarrow> reload_inv (fire h st)) \<and>
             (reload_closed n st \<longrightarrow> reload_closed n (fire h st))"
  proof cases
    case 1
    then show ?thesis by simp
  next
    case 2
    let ?c = "clearTimeout h st"
    have p: "pending Reload (fire h st) = pending Reload ?c"
      using 2(2) by (simp add: pending_def)
    have q: "reloadQueued (fire h st) = reloadQueued st"
      using 2(2) by simp
    have r: "reloads (fire h st) = (if action t = Reload then Suc (reloads st) else reloads st)"
      using 2(2) by (simp add: run_action_reloads)
    have le: "length (pending Reload ?c) \<le> length (pending Reload st)"
      by (rule pending_clearTimeout)
    have lt: "action t = Reload \<Longrightarrow> length (pending Reload ?c) < length (pending Reload st)"
      using 2(1) by (rule pending_fired)
    have "pending Reload ?c = []" if "action t = Reload" "length (pending Reload st) \<le> 1"
      using lt [OF that(1)] that(2) by (cases "pending Reload ?c") simp_all
    then show ?thesis
      using le lt
      by (cases "action t = Reload")
         (auto simp: reload_inv_def reload_closed_def p q r split: if_splits)
  qed
  then show "reload_inv st \<Longrightarrow> reload_inv (fire h st)"
    and "reload_closed n st \<Longrightarrow> reload_closed n (fire h st)"
    by simp_all
qed

lemma onMouseMove_pending:
  "length (pending Reload (onMouseMove cx cy st)) \<le> length (pending Reload st)"
proof -
  let ?s1 = "st\<lparr>mouse := \<lparr>v_x = cx - v_x (rect st), v_y = cy - v_y (rect st)\<rparr>\<rparr>"
  have "pending Reload ?s1 = pending Reload st" by (simp add: pending_def)
  with pending_clearTimeout [of Reload "the (stopTimer st)" ?s1]
  show ?thesis
    by (simp add: onMouseMove_def Let_def setTimeout_def pending_def clearTimeout_def)
qed

lemma onMouseMove_reload:
  "reload_inv st \<Longrightarrow> reload_inv (onMouseMove cx cy st)"
  "reload_closed n st \<Longrightarrow> reload_closed n (onMouseMove cx cy st)"
  using onMouseMove_pending [of cx cy st]
  by (auto simp: reload_inv_def reload_closed_def split: if_splits)

lemma unmount_pending:
  "length (pending Reload (unmount st)) \<le> length (pending Reload st)"
proof -
  let ?s1 = "st\<lparr>running := False\<rparr>"
  have "pending Reload ?s1 = pending Reload st" by (simp add: pending_def)
  with pending_clearTimeout [of Reload "the (stopTimer st)" ?s1]
  show ?thesis by (simp add: unmount_def Let_def)
qed

lemma unmount_reload:
  "reload_inv st \<Longrightarrow> reload_inv (unmount st)"
  "reload_closed n st \<Longrightarrow> reload_closed n (unmount st)"
  using unmount_pending [of st]
  by (auto simp: reload_inv_def reload_closed_def split: if_splits)

lemma step_reload:
  "reload_inv st \<Longrightarrow> reload_inv (step e st)"
  "reload_closed n st \<Longrightarrow> reload_closed n (step e st)"
proof -
  have tick: "reload_inv (st\<lparr>now := x\<rparr>) = reload_inv st"
    "reload_closed n (st\<lparr>now := x\<rparr>) = reload_closed n st" for x
    by (rule reload_same; simp)+
  have last: "reload_inv (st\<lparr>lastTime := x\<rparr>) = reload_inv st"
    "reload_closed n (st\<lparr>lastTime := x\<rparr>) = reload_closed n st" for x
    by (rule reload_same; simp)+
  have click: "reload_inv (onClick cx cy st) = reload_inv st"
    "reload_closed n (onClick cx cy st) = reload_closed n st" for cx cy
    by (rule reload_same; simp)+
  have rsz: "reload_inv (resize a b st) = reload_inv st"
    "reload_closed n (resize a b st) = reload_closed n st" for a b
    by (rule reload_same; simp)+
  have first: "reload_inv st \<Longrightarrow> reload_inv (loop x (st\<lparr>lastTime := x\<rparr>))"
    "reload_closed n st \<Longrightarrow> reload_closed n (loop x (st\<lparr>lastTime := x\<rparr>))" for x
    using loop_reload(1) [of "st\<lparr>lastTime := x\<rparr>" x]
      loop_reload(2) [of n "st\<lparr>lastTime := x\<rparr>" x] by (simp_all add: last)
  show "reload_inv st \<Longrightarrow> reload_inv (step e st)"
    by (cases e)
       (simp_all add: step_def loop_reload fire_reload onMouseMove_reload unmount_reload
          tick click rsz first)
  show "reload_closed n st \<Longrightarrow> reload_closed n (step e st)"
    by (cases e)
       (simp_all add: step_def loop_reload fire_reload onMouseMove_reload unmount_reload
          tick click rsz first)
qed

lemma run_reload:
  "reload_inv st \<Longrightarrow> reload_inv (run evs st)"
  "reload_closed n st \<Longrightarrow> reload_closed n (run evs st)"
  by (induction evs arbitrary: st) (simp_all add: step_reload)

lemma init_reload: "reload_inv (init iw ih t0)"
  by (simp add: reload_inv_def init_def pending_def Let_def)

text \<open>
  C2. In every session, however its events are ordered, the number of calls of
  \<open>window.location.reload()\<close> plus the number of reload callbacks still pending is at
  most 1: the callback is scheduled at most once and runs at most once. Once
  \<open>reloadQueued\<close> is set it stays set, and no later step adds a reload callback.
\<close>

theorem reload_at_most_once:
  "reloads (run evs (init iw ih t0)) + length (pending Reload (run evs (init iw ih t0))) \<le> 1
   \<and> (reloadQueued st \<longrightarrow>
        reloadQueued (run evs st) \<and>
        length (pending Reload (run evs st)) \<le> length (pending Reload st))"
proof -
  have "reload_inv (run evs (init iw ih t0))"
    using init_reload by (rule run_reload)
  then have a: "reloads (run evs (init iw ih t0))
                 + length (pending Reload (run evs (init iw ih t0))) \<le> 1"
    by (auto simp: reload_inv_def split: if_splits)
  have "reload_closed (length (pending Reload st)) (run evs st)" if "reloadQueued st"
    using that by (intro run_reload) (simp add: reload_closed_def)
  then have b: "reloadQueued st \<longrightarrow>
        reloadQueued (run evs st) \<and>
        length (pending Reload (run evs st)) \<le> length (pending Reload st)"
    by (simp add: reload_closed_def)
  from a b show ?thesis by blast
qed

theorem reload_at_most_once_witness:
  "reloadQueued crash_state \<and> length (pending Reload crash_state) = 1 \<and>
   \<not> a_alive (boy crash_state) \<and>
   hitBoy (explosions crash_state ! 1) \<and> \<not> hitBoy (explosions crash_state ! 2) \<and>
   hitBoy (explosions (run [Tick 16, Frame 34317] crash_state) ! 0) \<and>
   length (timers (run [Tick 16, Frame 34317] crash_state)) = 1 \<and>
   reloads (run [Tick 16, Frame 34317, Tick 2484, Fire 1, Tick 16, Fire 1] crash_state) = 1 \<and>
   pending Reload (run [Tick 16, Frame 34317, Tick 2484, Fire 1, Tick 16, Fire 1] crash_state) = []"
proof -
  have v: "reloadQueued crash_state" "length (pending Reload crash_state) = 1"
    "\<not> a_alive (boy crash_state)"
    "hitBoy (explosions crash_state ! 1)" "\<not> hitBoy (explosions crash_state ! 2)"
    "hitBoy (explosions (run [Tick 16, Frame 34317] crash_state) ! 0)"
    "length (timers (run [Tick 16, Frame 34317] crash_state)) = 1"
    "reloads (run [Tick 16, Frame 34317, Tick 2484, Fire 1, Tick 16, Fire 1] crash_state) = 1"
    by (simp_all add: crash_state_def crash_events_def pending_def eval_defs cong: let_weak_cong)
  from reload_at_most_once
    [of "crash_events @ [Tick 16, Frame 34317, Tick 2484, Fire 1, Tick 16, Fire 1]" 800 600 0
        crash_state]
  have "reloads (run [Tick 16, Frame 34317, Tick 2484, Fire 1, Tick 16, Fire 1] crash_state)
        + length (pending Reload
            (run [Tick 16, Frame 34317, Tick 2484, Fire 1, Tick 16, Fire 1] crash_state)) \<le> 1"
    by (simp add: crash_state_def session0_def run_append)
  with v show ?thesis by simp
qed

subsection \<open>Radius growth and cleanup\<close>

lemma set_cleanup_explosions:
  "set (cleanup_explosions t xs) = {ex \<in> set xs. \<not> t - createdAt ex > lifeMs ex}"
  by (induction xs) (auto simp: Let_def)

lemma drawNuclearExplosion_fields [simp]:
  "ex_r (drawNuclearExplosion t ex) = shock_radius (maxR ex) (lifeMs ex) (t - createdAt ex)"
  "maxR (drawNuclearExplosion t ex) = maxR ex"
  "lifeMs (drawNuclearExplosion t ex) = lifeMs ex"
  "createdAt (drawNuclearExplosion t ex) = createdAt ex"
  "ex_alive (drawNuclearExplosion t ex) = ex_alive ex"
  by (simp_all add: drawNuclearExplosion_def shock_radius_def Let_def)

lemma frame_unfold:
  assumes "running st" and "reloads st = 0"
  shows "step (Frame t) st =
           cleanup (draw (t - lastTime st)
             (collide 0 (integrate (t - lastTime st) (st\<lparr>lastTime := t\<rparr>))))"
  using assms by (simp add: step_def loop_def update_def Let_def)

lemma clamp_mono: "a \<le> b \<Longrightarrow> clamp a lo hi \<le> clamp b lo hi"
  by (simp add: clamp_def max_def min_def)

lemma shock_radius_mono:
  assumes "0 \<le> m" and "0 \<le> l" and "e1 \<le> e2"
  shows "shock_radius m l e1 \<le> shock_radius m l e2"
proof -
  have "e1 / l \<le> e2 / l"
    using assms(2,3) by (rule divide_right_mono [rotated])
  then have "clamp (e1 / l) 0 1 \<le> clamp (e2 / l) 0 1"
    by (rule clamp_mono)
  then have "0.2 + 0.8 * clamp (e1 / l) 0 1 \<le> 0.2 + 0.8 * clamp (e2 / l) 0 1"
    by simp
  then show ?thesis
    unfolding shock_radius_def using assms(1) by (rule mult_left_mono)
qed

text \<open>
  C4 (amended). When a frame has run, every explosion left in the live set has an age of at
  most its lifetime at that frame's clock value and carries the radius
  \<open>maxR \<sqdot> (0.2 + 0.8 \<sqdot> clamp (elapsed / lifeMs) 0 1)\<close> for that age; this radius is
  non-decreasing in the age. A new explosion starts with radius 0.
\<close>

theorem radius_after_frame:
  assumes "running st" and "reloads st = 0"
  shows "(\<forall>ex \<in> set (explosions (step (Frame t) st)).
            now st - createdAt ex \<le> lifeMs ex \<and>
            (ex_alive ex \<longrightarrow>
               ex_r ex = shock_radius (maxR ex) (lifeMs ex) (now st - createdAt ex)))
       \<and> (0 \<le> m \<and> 0 \<le> l \<and> e1 \<le> e2 \<longrightarrow> shock_radius m l e1 \<le> shock_radius m l e2)
       \<and> ex_r (new_explosion x y c) = 0
       \<and> explosions (spawnExplosion x y st) = explosions st @ [new_explosion x y (now st)]"
proof -
  let ?u = "collide 0 (integrate (t - lastTime st) (st\<lparr>lastTime := t\<rparr>))"
  have ex: "explosions (step (Frame t) st) =
      cleanup_explosions (now st)
        (map (\<lambda>ex. if ex_alive ex then drawNuclearExplosion (now st) ex else ex) (explosions ?u))"
    by (simp add: frame_unfold [OF assms] cleanup_def draw_def cong: if_cong)
  have a: "\<forall>ex \<in> set (explosions (step (Frame t) st)).
            now st - createdAt ex \<le> lifeMs ex \<and>
            (ex_alive ex \<longrightarrow>
               ex_r ex = shock_radius (maxR ex) (lifeMs ex) (now st - createdAt ex))"
    unfolding ex set_cleanup_explosions by auto
  have b: "0 \<le> m \<and> 0 \<le> l \<and> e1 \<le> e2 \<longrightarrow> shock_radius m l e1 \<le> shock_radius m l e2"
    using shock_radius_mono by blast
  have c: "ex_r (new_explosion x y c) = 0"
    "explosions (spawnExplosion x y st) = explosions st @ [new_explosion x y (now st)]"
    by (simp_all add: new_explosion_def spawnExplosion_def)
  from a b c show ?thesis by blast
qed

theorem radius_after_frame_witness:
  "running aged_state \<and> reloads aged_state = 0 \<and> now aged_state = 1206 \<and>
   map ex_r (explosions aged_state) = [0] \<and>
   map createdAt (explosions (step (Frame 1206) aged_state)) = [16] \<and>
   map ex_r (explosions (step (Frame 1206) aged_state)) = [shock_radius 140 1200 1190] \<and>
   shock_radius 140 1200 1190 = 2086 / 15 \<and>
   shock_radius 140 1200 0 \<le> shock_radius 140 1200 1190"
proof -
  have h: "running aged_state" "reloads aged_state = 0"
    and v: "map ex_r (explosions aged_state) = [0]" "now aged_state = 1206"
      "explosions (step (Frame 1206) aged_state) =
         [(new_explosion 100 100 16)\<lparr>ex_r := 2086 / 15\<rparr>]"
      "shock_radius 140 1200 1190 = 2086 / 15"
    by (simp_all add: aged_state_def click_state_def eval_defs cong: let_weak_cong)
  from radius_after_frame [OF h, of 1206 140 1200 0 1190 0 0 0] h v
  show ?thesis by (simp add: new_explosion_def)
qed

text \<open>
  C4 as stated fails twice. Right after the click the explosion's radius is 0, not
  \<open>0.2 \<sqdot> maxR = 28\<close>. And 1207 ms after the click, 17 ms after the last frame, the
  explosion is still in the live set, with the radius that frame gave it.
\<close>

theorem radius_formula_counterexample:
  "map ex_r (explosions click_state) = [0] \<and>
   map maxR (explosions click_state) = [140] \<and>
   shock_radius 140 1200 0 = 28 \<and>
   map createdAt (explosions blast_state) = [16] \<and>
   map lifeMs (explosions blast_state) = [1200] \<and>
   map ex_alive (explosions blast_state) = [True] \<and>
   now blast_state = 1223 \<and>
   map ex_r (explosions blast_state) = [2086 / 15] \<and>
   shock_radius 140 1200 (1223 - 16) = 140"
  by (simp add: blast_state_def aged_state_def click_state_def eval_defs cong: let_weak_cong)

subsection \<open>The order of a frame\<close>







subsection \<open>Revival of the Runner\<close>

lemma hit_boy_cases:
  "hit_boy j st =
     (if boy_cond j st
      then triggerEarthquake
             (st\<lparr>explosions := (explosions st)[j := (explosions st ! j)\<lparr>hitBoy := True\<rparr>],
                 boy := (boy st)\<lparr>a_alive := False\<rparr>\<rparr>)
      else st)"
  by (simp add: hit_boy_def Let_def)

lemma hit_bomber_hitBoy:
  assumes "k < length (explosions st)"
  shows "hitBoy (explosions (hit_bomber j st) ! k) = hitBoy (explosions st ! k)"
  using assms
  by (cases "bomber_cond j st")
     (simp_all add: hit_bomber_hit hit_bomber_miss nth_append nth_update_field)

lemma hit_boy_hitBoy_kept:
  "hitBoy (explosions st ! k) \<Longrightarrow> hitBoy (explosions (hit_boy j st) ! k)"
  by (cases "j < length (explosions st)")
     (simp_all add: hit_boy_cases nth_list_update list_update_beyond)

lemma collide_body_hitBoy_kept:
  assumes "k < length (explosions st)" and "hitBoy (explosions st ! k)"
  shows "hitBoy (explosions (collide_body j st) ! k)"
  using assms by (simp add: collide_body_def hit_boy_hitBoy_kept hit_bomber_hitBoy)

lemma collide_body_newly_hit:
  assumes j: "j < length (explosions s)"
    and inv: "length (explosions s0) \<le> length (explosions s) \<and>
       ((a_alive (boy s) \<and>
         (\<forall>k<length (explosions s0). hitBoy (explosions s ! k) = hitBoy (explosions s0 ! k)))
        \<or> newly_hit s0 s)"
  shows "length (explosions s0) \<le> length (explosions (collide_body j s)) \<and>
       ((a_alive (boy (collide_body j s)) \<and>
         (\<forall>k<length (explosions s0).
            hitBoy (explosions (collide_body j s) ! k) = hitBoy (explosions s0 ! k)))
        \<or> newly_hit s0 (collide_body j s))"
proof -
  let ?b = "collide_body j s"
  have len: "length (explosions s) \<le> length (explosions ?b)"
    using j by (rule collide_body_score_flags(3))
  show ?thesis
  proof (cases "newly_hit s0 s")
    case True
    then obtain k where k: "k < length (explosions s)" "hitBoy (explosions s ! k)"
      "k < length (explosions s0) \<longrightarrow> \<not> hitBoy (explosions s0 ! k)"
      by (auto simp: newly_hit_def)
    from collide_body_hitBoy_kept [OF k(1,2), of j] k len
    have "newly_hit s0 ?b"
      unfolding newly_hit_def by (intro exI [of _ k]) auto
    with inv len show ?thesis by simp
  next
    case False
    with inv have alive: "a_alive (boy s)"
      and same: "\<forall>k<length (explosions s0). hitBoy (explosions s ! k) = hitBoy (explosions s0 ! k)"
      by auto
    let ?h = "hit_bomber j s"
    have hlen: "j < length (explosions ?h)"
      using j hit_bomber_score_flags(3) [OF j] by simp
    have hsame: "\<forall>k<length (explosions s0). hitBoy (explosions ?h ! k) = hitBoy (explosions s0 ! k)"
      using same inv by (simp add: hit_bomber_hitBoy)
    show ?thesis
    proof (cases "ex_alive (explosions s ! j) \<and> boy_cond j ?h")
      case True
      then have b: "?b = hit_boy j ?h" by (simp add: collide_body_def)
      have nf: "\<not> hitBoy (explosions ?h ! j)"
        using True by (simp add: boy_cond_def Let_def)
      have "hitBoy (explosions ?b ! j)" "j < length (explosions ?b)"
        using True hlen by (simp_all add: b hit_boy_cases)
      moreover have "\<not> hitBoy (explosions s0 ! j)" if "j < length (explosions s0)"
        using that nf hsame by simp
      ultimately have "newly_hit s0 ?b"
        unfolding newly_hit_def by (intro exI [of _ j]) auto
      with inv len show ?thesis by simp
    next
      case False
      then have "?b = s \<or> ?b = ?h"
        by (auto simp: collide_body_def hit_boy_cases)
      then have "a_alive (boy ?b)"
        "\<forall>k<length (explosions s0). hitBoy (explosions ?b ! k) = hitBoy (explosions s0 ! k)"
        using alive same hsame by auto
      with inv len show ?thesis by simp
    qed
  qed
qed

lemma collide_newly_hit:
  assumes "a_alive (boy s0)"
  shows "a_alive (boy (collide i s0)) \<or> newly_hit s0 (collide i s0)"
proof -
  have "length (explosions s0) \<le> length (explosions (collide i s0)) \<and>
       ((a_alive (boy (collide i s0)) \<and>
         (\<forall>k<length (explosions s0).
            hitBoy (explosions (collide i s0) ! k) = hitBoy (explosions s0 ! k)))
        \<or> newly_hit s0 (collide i s0))"
    by (rule collide_invariant [where P = "\<lambda>s. length (explosions s0) \<le> length (explosions s) \<and>
       ((a_alive (boy s) \<and>
         (\<forall>k<length (explosions s0). hitBoy (explosions s ! k) = hitBoy (explosions s0 ! k)))
        \<or> newly_hit s0 s)"])
       (simp_all add: collide_body_newly_hit assms)
  then show ?thesis by blast
qed

lemma spawn_actors_boy_dead:
  assumes "\<not> a_alive (boy st)" and "now st - startTime st > 30000"
  shows "boy (spawn_actors st) = (boy st)\<lparr>a_alive := True, a_x := - 80, a_y := groundY st - 8\<rparr>"
  using assms by (simp add: spawn_actors_def Let_def)

text \<open>
  C9. If the Runner is not alive and more than 30 seconds of the session have passed, the
  spawn block of the next update step marks it alive at \<open>(-80, groundY - 8)\<close>, whatever the
  values of \<open>quakeActive\<close> and \<open>reloadQueued\<close>. The same step then moves it, so after the
  step it stands at the spawn height, 0.12 \<sqdot> dt from the spawn abscissa, and it is alive
  unless an explosion that had not flagged it before hits it again in this very step.
\<close>

theorem runner_revived:
  assumes "\<not> a_alive (boy st)" and "now st - startTime st > 30000"
  shows "boy (spawn_actors (missile_follow st)) =
           (boy st)\<lparr>a_alive := True, a_x := - 80, a_y := groundY st - 8\<rparr>
       \<and> update dt st =
           collide 0 (decay dt (bomber_behavior dt (move_boy dt
             (spawn_actors (missile_follow st)))))
       \<and> a_y (boy (update dt st)) = groundY st - 8
       \<and> a_x (boy (update dt st)) =
           (if - 80 + 0.12 * dt - a_w (boy st) / 2 > width st + 40 then - 80
            else - 80 + 0.12 * dt)
       \<and> (a_alive (boy (update dt st)) \<or>
            (\<exists>j<length (explosions (update dt st)).
                hitBoy (explosions (update dt st) ! j) \<and>
                (j < length (explosions st) \<longrightarrow> \<not> hitBoy (explosions st ! j))))"
proof -
  let ?m = "missile_follow st"
  let ?s0 = "integrate dt st"
  have dead: "\<not> a_alive (boy ?m)" "now ?m - startTime ?m > 30000"
    using assms by simp_all
  have a: "boy (spawn_actors ?m) = (boy st)\<lparr>a_alive := True, a_x := - 80, a_y := groundY st - 8\<rparr>"
    using spawn_actors_boy_dead [OF dead] by simp
  have b: "update dt st =
           collide 0 (decay dt (bomber_behavior dt (move_boy dt (spawn_actors ?m))))"
    by (simp add: update_def integrate_def)
  have alive: "a_alive (boy (spawn_actors ?m))" using a by simp
  have boy0: "boy ?s0 =
     (boy st)\<lparr>a_alive := True, a_y := groundY st - 8,
              a_x := (if - 80 + 0.12 * dt - a_w (boy st) / 2 > width st + 40 then - 80
                      else - 80 + 0.12 * dt)\<rparr>"
    by (simp add: integrate_def move_boy_alive [OF alive] a)
  then have c: "a_y (boy (update dt st)) = groundY st - 8"
    "a_x (boy (update dt st)) =
       (if - 80 + 0.12 * dt - a_w (boy st) / 2 > width st + 40 then - 80 else - 80 + 0.12 * dt)"
    by (simp_all add: update_def)
  have "a_alive (boy ?s0)" using boy0 by simp
  from collide_newly_hit [OF this, of 0]
  have d: "a_alive (boy (update dt st)) \<or>
            (\<exists>j<length (explosions (update dt st)).
                hitBoy (explosions (update dt st) ! j) \<and>
                (j < length (explosions st) \<longrightarrow> \<not> hitBoy (explosions st ! j)))"
    by (simp add: update_def newly_hit_def)
  from a b c d show ?thesis by blast
qed

theorem runner_revived_witness:
  "\<not> a_alive (boy crash2_state) \<and> now crash2_state - startTime crash2_state = 34333 \<and>
   quakeActive crash2_state \<and> reloadQueued crash2_state \<and> reloads crash2_state = 0 \<and>
   groundY crash2_state = 540 \<and>
   a_alive (boy (update 16 crash2_state)) \<and>
   a_x (boy (update 16 crash2_state)) = - 78.08 \<and>
   a_y (boy (update 16 crash2_state)) = 532"
proof -
  have h: "\<not> a_alive (boy crash2_state)" "now crash2_state - startTime crash2_state > 30000"
    and v: "now crash2_state - startTime crash2_state = 34333"
      "quakeActive crash2_state" "reloadQueued crash2_state" "reloads crash2_state = 0"
      "groundY crash2_state = 540" "a_w (boy crash2_state) = 28" "width crash2_state = 800"
      "a_alive (boy (update 16 crash2_state))"
    by (simp_all add: crash2_state_def crash_state_def crash_events_def eval_defs
          cong: let_weak_cong)
  from runner_revived [OF h, of 16]
  have "a_y (boy (update 16 crash2_state)) = groundY crash2_state - 8"
    "a_x (boy (update 16 crash2_state)) =
       (if - 80 + 0.12 * 16 - a_w (boy crash2_state) / 2 > width crash2_state + 40 then - 80
        else - 80 + 0.12 * 16)"
    by blast+
  with h v show ?thesis by simp
qed

subsection \<open>The Flyer's respawn callback\<close>

lemma fire_pending:
  assumes "find (\<lambda>t. t_id t = h) (timers st) = Some tm"
  shows "fire h st =
           (if fireAt tm \<le> now st then run_action (action tm) (clearTimeout h st) else st)"
  using assms by (simp add: fire_def)

text \<open>
  C6 (amended). A Flyer hit at clock value \<open>T\<close> marks the Flyer not alive and schedules one
  respawn callback for \<open>T + 1200\<close>. The callback cannot run before that time. When it runs
  and the component is still mounted (\<open>running\<close>, which also holds during the crash
  sequence), the Flyer is alive at its spawn coordinates \<open>(-200, groundY - 200)\<close> with its
  animation clock at 0; when it runs after the unmount, it changes nothing about the Flyer.
\<close>

theorem flyer_respawn_callback:
  assumes "find (\<lambda>t. t_id t = h) (timers s) = Some tm" and "action tm = RespawnBomber"
    and "reloads s = 0"
  shows "(bomber_cond i st \<longrightarrow>
            \<not> a_alive (bomber (hit_bomber i st)) \<and>
            timers (hit_bomber i st) =
              timers st @ [\<lparr>t_id = nextTimer st, fireAt = now st + 1200,
                            action = RespawnBomber\<rparr>])
       \<and> (now s < fireAt tm \<longrightarrow> step (Fire h) s = s)
       \<and> (fireAt tm \<le> now s \<and> running s \<longrightarrow>
            bomber (step (Fire h) s) =
              (bomber s)\<lparr>a_alive := True, animTime := 0, a_x := - 200,
                         a_y := groundY s - 200\<rparr>)
       \<and> (fireAt tm \<le> now s \<and> \<not> running s \<longrightarrow> bomber (step (Fire h) s) = bomber s)"
proof -
  have a: "bomber_cond i st \<longrightarrow>
            \<not> a_alive (bomber (hit_bomber i st)) \<and>
            timers (hit_bomber i st) =
              timers st @ [\<lparr>t_id = nextTimer st, fireAt = now st + 1200,
                            action = RespawnBomber\<rparr>]"
    by (simp add: hit_bomber_hit)
  have f: "step (Fire h) s =
      (if fireAt tm \<le> now s then run_action RespawnBomber (clearTimeout h s) else s)"
    using assms by (simp add: step_def fire_pending)
  have b: "now s < fireAt tm \<longrightarrow> step (Fire h) s = s"
    by (simp add: f)
  have c: "fireAt tm \<le> now s \<and> running s \<longrightarrow>
            bomber (step (Fire h) s) =
              (bomber s)\<lparr>a_alive := True, animTime := 0, a_x := - 200,
                         a_y := groundY s - 200\<rparr>"
    by (simp add: f run_action_def spawnBomber_def)
  have d: "fireAt tm \<le> now s \<and> \<not> running s \<longrightarrow> bomber (step (Fire h) s) = bomber s"
    by (simp add: f run_action_def)
  from a b c d show ?thesis by blast
qed

theorem flyer_respawn_callback_witness:
  "bomber_cond 0 (integrate 16 flyer_state) \<and>
   now flyer_state = 36417 \<and>
   timers (step (Frame 36417) flyer_state) =
     [\<lparr>t_id = 1, fireAt = 37617, action = RespawnBomber\<rparr>] \<and>
   \<not> a_alive (bomber (step (Frame 36417) flyer_state)) \<and>
   step (Fire 1) (step (Frame 36417) flyer_state) = step (Frame 36417) flyer_state \<and>
   running (step (Tick 1200) (step (Frame 36417) flyer_state)) \<and>
   now (step (Tick 1200) (step (Frame 36417) flyer_state)) = 37617 \<and>
   bomber (step (Fire 1) (step (Tick 1200) (step (Frame 36417) flyer_state))) =
     \<lparr>a_x = - 200, a_y = 340, a_w = 110, a_h = 34, a_alive = True, animTime = 0\<rparr>"
proof -
  let ?hit = "step (Frame 36417) flyer_state"
  let ?due = "step (Tick 1200) (step (Frame 36417) flyer_state)"
  let ?tm = "\<lparr>t_id = 1, fireAt = 37617, action = RespawnBomber\<rparr>"
  have "let s = flyer_state; hit = step (Frame 36417) s; due = step (Tick 1200) hit
        in bomber_cond 0 (integrate 16 s) \<and> now s = 36417 \<and>
           timers hit = [?tm] \<and> \<not> a_alive (bomber hit) \<and> now hit = 36417 \<and>
           reloads hit = 0 \<and> timers due = [?tm] \<and> running due \<and> now due = 37617 \<and>
           reloads due = 0 \<and> groundY due = 540 \<and> a_w (bomber due) = 110 \<and>
           a_h (bomber due) = 34"
    by (simp add: flyer_state_def flyer_events_def eval_defs cong: let_weak_cong)
  then have v: "bomber_cond 0 (integrate 16 flyer_state)" "now flyer_state = 36417"
    "timers ?hit = [?tm]" "\<not> a_alive (bomber ?hit)" "now ?hit = 36417" "reloads ?hit = 0"
    "timers ?due = [?tm]" "running ?due" "now ?due = 37617" "reloads ?due = 0"
    "groundY ?due = 540" "a_w (bomber ?due) = 110" "a_h (bomber ?due) = 34"
    unfolding Let_def by blast+
  have f1: "find (\<lambda>t. t_id t = 1) (timers ?hit) = Some ?tm"
    and f2: "find (\<lambda>t. t_id t = 1) (timers ?due) = Some ?tm"
    unfolding v by simp_all
  have act: "action ?tm = RespawnBomber" by simp
  from flyer_respawn_callback [OF f1 act v(6), of 0 "integrate 16 flyer_state"] v(5)
  have early: "step (Fire 1) ?hit = ?hit" by simp
  from flyer_respawn_callback [OF f2 act v(10), of 0 "integrate 16 flyer_state"] v(8,9,11)
  have "bomber (step (Fire 1) ?due) =
      (bomber ?due)\<lparr>a_alive := True, animTime := 0, a_x := - 200, a_y := 340\<rparr>" by simp
  then have late: "bomber (step (Fire 1) ?due) =
     \<lparr>a_x = - 200, a_y = 340, a_w = 110, a_h = 34, a_alive = True, animTime = 0\<rparr>"
    using v(12,13) by (cases "bomber ?due") simp
  from v(1,2,3,4,8,9) early late show ?thesis by blast
qed

text \<open>
  C6 as stated fails. The Flyer is hit in the frame at 36417, and its respawn callback is
  due at 37617; the frame at 36433 finds the Flyer not alive more than 30 seconds into the
  session and spawns it again, 16 ms after its destruction, with the callback still
  pending. In the same frame the Runner is hit and the crash sequence starts; the callback
  runs at 37617 all the same and puts the Flyer, alive and under way by then, back to its
  spawn point.
\<close>

theorem flyer_dormant_counterexample:
  "a_alive (bomber flyer_state) \<and>
   \<not> a_alive (bomber (step (Frame 36417) flyer_state)) \<and>
   score (step (Frame 36417) flyer_state) = 1 \<and>
   now (step (Frame 36417) flyer_state) = 36417 \<and>
   map fireAt (pending RespawnBomber (step (Frame 36417) flyer_state)) = [36417 + 1200] \<and>
   now (run [Frame 36417, Click 692 509, Tick 16, Frame 36433] flyer_state) = 36433 \<and>
   a_alive (bomber (run [Frame 36417, Click 692 509, Tick 16, Frame 36433] flyer_state)) \<and>
   a_x (bomber (run [Frame 36417, Click 692 509, Tick 16, Frame 36433] flyer_state))
     = - 178.0448 \<and>
   map fireAt (pending RespawnBomber
     (run [Frame 36417, Click 692 509, Tick 16, Frame 36433] flyer_state)) = [37617] \<and>
   quakeActive (run [Frame 36417, Click 692 509, Tick 16, Frame 36433] flyer_state) \<and>
   \<not> a_alive (boy (run [Frame 36417, Click 692 509, Tick 16, Frame 36433] flyer_state)) \<and>
   a_x (bomber (run [Frame 36417, Click 692 509, Tick 16, Frame 36433, Tick 1184, Fire 1]
     flyer_state)) = - 200 \<and>
   quakeActive (run [Frame 36417, Click 692 509, Tick 16, Frame 36433, Tick 1184, Fire 1]
     flyer_state)"
proof -
  have "let s = flyer_state; hit = step (Frame 36417) s;
            nxt = step (Frame 36433) (step (Tick 16) (step (Click 692 509) hit));
            due = step (Fire 1) (step (Tick 1184) nxt)
        in a_alive (bomber s) \<and> \<not> a_alive (bomber hit) \<and> score hit = 1 \<and>
           now hit = 36417 \<and> map fireAt (pending RespawnBomber hit) = [36417 + 1200] \<and>
           now nxt = 36433 \<and> a_alive (bomber nxt) \<and> a_x (bomber nxt) = - 178.0448 \<and>
           map fireAt (pending RespawnBomber nxt) = [37617] \<and>
           quakeActive nxt \<and> \<not> a_alive (boy nxt) \<and>
           a_x (bomber due) = - 200 \<and> quakeActive due"
    by (simp add: flyer_state_def flyer_events_def pending_def eval_defs cong: let_weak_cong)
  then show ?thesis
    unfolding Let_def run.simps by blast
qed

subsection \<open>The settle timer\<close>

lemma settle_ok_add:
  "settle_ok n ts sp rn \<Longrightarrow> a \<noteq> SettleDetonation \<Longrightarrow>
   settle_ok (Suc n) (ts @ [\<lparr>t_id = n, fireAt = f, action = a\<rparr>]) sp rn"
  by (auto simp: settle_ok_def list_all_iff)

lemma settle_ok_filter:
  "settle_ok n ts sp rn \<Longrightarrow> settle_ok n (filter P ts) sp rn"
  by (auto simp: settle_ok_def list_all_iff)

lemma settle_inv_same:
  assumes "nextTimer s = nextTimer st" and "timers s = timers st"
    and "stopTimer s = stopTimer st" and "running s = running st"
  shows "settle_inv s = settle_inv st"
  using assms by (simp add: settle_inv_def)

lemma triggerEarthquake_timers:
  "timers (triggerEarthquake st) =
     (if reloadQueued st then timers st
      else timers st @ [\<lparr>t_id = nextTimer st, fireAt = now st + (quakeDuration + 300),
                          action = Reload\<rparr>])"
  "nextTimer (triggerEarthquake st) =
     (if reloadQueued st then nextTimer st else Suc (nextTimer st))"
  by (simp_all add: triggerEarthquake_def setTimeout_def Let_def)

lemma hit_boy_timers:
  "timers (hit_boy j st) = timers st \<and> nextTimer (hit_boy j st) = nextTimer st \<or>
   timers (hit_boy j st) =
     timers st @ [\<lparr>t_id = nextTimer st, fireAt = now st + (quakeDuration + 300),
                   action = Reload\<rparr>] \<and>
   nextTimer (hit_boy j st) = Suc (nextTimer st)"
  by (simp add: hit_boy_cases triggerEarthquake_timers)

lemma hit_bomber_timers:
  "timers (hit_bomber j st) = timers st \<and> nextTimer (hit_bomber j st) = nextTimer st \<or>
   timers (hit_bomber j st) =
     timers st @ [\<lparr>t_id = nextTimer st, fireAt = now st + 1200, action = RespawnBomber\<rparr>] \<and>
   nextTimer (hit_bomber j st) = Suc (nextTimer st)"
  by (cases "bomber_cond j st") (simp_all add: hit_bomber_hit hit_bomber_miss)

lemma hit_settle:
  "settle_inv st \<Longrightarrow> settle_inv (hit_boy j st)"
  "settle_inv st \<Longrightarrow> settle_inv (hit_bomber j st)"
  "pending SettleDetonation (hit_boy j st) = pending SettleDetonation st"
  "pending SettleDetonation (hit_bomber j st) = pending SettleDetonation st"
  using hit_boy_timers [of j st] hit_bomber_timers [of j st]
  by (auto simp: settle_inv_def pending_def settle_ok_add)

lemma collide_body_settle:
  "settle_inv st \<Longrightarrow> settle_inv (collide_body j st)"
  "pending SettleDetonation (collide_body j st) = pending SettleDetonation st"
  by (simp_all add: collide_body_def hit_settle)

lemma collide_settle:
  "settle_inv st \<Longrightarrow> settle_inv (collide i st)"
  "pending SettleDetonation (collide i st) = pending SettleDetonation st"
  by (rule collide_invariant; simp add: collide_body_settle)+

lemma loop_settle:
  "settle_inv st \<Longrightarrow> settle_inv (loop t st)"
  "pending SettleDetonation (loop t st) = pending SettleDetonation st"
proof -
  let ?s0 = "integrate (t - lastTime st) (st\<lparr>lastTime := t\<rparr>)"
  let ?u = "collide 0 ?s0"
  have s0: "settle_inv ?s0 = settle_inv st"
    "pending SettleDetonation ?s0 = pending SettleDetonation st"
    by (simp_all add: settle_inv_def pending_def)
  have "settle_inv (cleanup (draw d ?u)) = settle_inv ?u"
    "pending SettleDetonation (cleanup (draw d ?u)) = pending SettleDetonation ?u" for d
    by (simp_all add: settle_inv_def pending_def)
  then have l: "settle_inv (loop t st) = (if running st then settle_inv ?u else settle_inv st)"
    "pending SettleDetonation (loop t st) =
       (if running st then pending SettleDetonation ?u else pending SettleDetonation st)"
    by (simp_all add: loop_def update_def Let_def)
  show "settle_inv st \<Longrightarrow> settle_inv (loop t st)"
    using collide_settle(1) [of ?s0 0] by (simp add: l s0)
  show "pending SettleDetonation (loop t st) = pending SettleDetonation st"
    by (simp add: l collide_settle s0)
qed

lemma onMouseMove_timers:
  "timers (onMouseMove cx cy st) =
     (if truthy (stopTimer st) then filter (\<lambda>t. t_id t \<noteq> the (stopTimer st)) (timers st)
      else timers st) @
     (if firstClickHandled st
      then [\<lparr>t_id = nextTimer st, fireAt = now st + 240, action = SettleDetonation\<rparr>]
      else [])"
  "nextTimer (onMouseMove cx cy st) =
     (if firstClickHandled st then Suc (nextTimer st) else nextTimer st)"
  "stopTimer (onMouseMove cx cy st) =
     (if firstClickHandled st then Some (nextTimer st) else stopTimer st)"
  "mouse (onMouseMove cx cy st) = \<lparr>v_x = cx - v_x (rect st), v_y = cy - v_y (rect st)\<rparr>"
  by (simp_all add: onMouseMove_def setTimeout_def clearTimeout_def Let_def)

lemma settle_cleared:
  assumes "settle_ok n ts sp rn"
  shows "filter (\<lambda>t. action t = SettleDetonation)
           (if truthy sp then filter (\<lambda>t. t_id t \<noteq> the sp) ts else ts) = []"
  using assms by (auto simp: settle_ok_def list_all_iff filter_empty_conv)

lemma settle_ok_cleared:
  assumes "settle_ok n ts sp rn"
  shows "settle_ok n (if truthy sp then filter (\<lambda>t. t_id t \<noteq> the sp) ts else ts) sp' rn'"
  using assms by (auto simp: settle_ok_def list_all_iff)

lemma settle_ok_rearm:
  assumes "settle_ok n ts sp rn" and "filter (\<lambda>t. action t = SettleDetonation) ts = []"
  shows "settle_ok (Suc n) (ts @ [\<lparr>t_id = n, fireAt = f, action = a\<rparr>]) (Some n) True"
  using assms by (auto simp: settle_ok_def list_all_iff filter_empty_conv)

lemma onMouseMove_settle:
  assumes "settle_inv st" and "running st"
  shows "settle_inv (onMouseMove cx cy st)"
    and "pending SettleDetonation (onMouseMove cx cy st) =
           (if firstClickHandled st
            then [\<lparr>t_id = nextTimer st, fireAt = now st + 240, action = SettleDetonation\<rparr>]
            else [])"
proof -
  let ?ts = "if truthy (stopTimer st)
             then filter (\<lambda>t. t_id t \<noteq> the (stopTimer st)) (timers st) else timers st"
  from assms(1) have ok: "settle_ok (nextTimer st) (timers st) (stopTimer st) (running st)"
    by (simp add: settle_inv_def)
  note clr = settle_cleared [OF ok]
  show "pending SettleDetonation (onMouseMove cx cy st) =
           (if firstClickHandled st
            then [\<lparr>t_id = nextTimer st, fireAt = now st + 240, action = SettleDetonation\<rparr>]
            else [])"
    using clr by (simp add: pending_def onMouseMove_timers)
  show "settle_inv (onMouseMove cx cy st)"
  proof (cases "firstClickHandled st")
    case True
    from settle_ok_rearm [OF settle_ok_cleared [OF ok] clr]
    show ?thesis
      using True assms(2) by (simp add: settle_inv_def onMouseMove_timers)
  next
    case False
    from settle_ok_cleared [OF ok, of "stopTimer st" "running st"]
    show ?thesis
      using False by (simp add: settle_inv_def onMouseMove_timers)
  qed
qed

lemma unmount_timers:
  "timers (unmount st) =
     (if truthy (stopTimer st) then filter (\<lambda>t. t_id t \<noteq> the (stopTimer st)) (timers st)
      else timers st)"
  "\<not> running (unmount st)"
  by (simp_all add: unmount_def clearTimeout_def Let_def)

lemma unmount_settle:
  assumes "settle_inv st"
  shows "settle_inv (unmount st)" and "pending SettleDetonation (unmount st) = []"
proof -
  from assms have ok: "settle_ok (nextTimer st) (timers st) (stopTimer st) (running st)"
    by (simp add: settle_inv_def)
  show "pending SettleDetonation (unmount st) = []"
    using settle_cleared [OF ok] by (simp add: pending_def unmount_timers)
  show "settle_inv (unmount st)"
    using settle_ok_cleared [OF ok, of "stopTimer st" "running (unmount st)"]
    by (simp add: settle_inv_def unmount_timers(1))
qed

lemma fire_fields:
  "nextTimer (fire h st) = nextTimer st" "stopTimer (fire h st) = stopTimer st"
  "running (fire h st) = running st" "now (fire h st) = now st"
  "firstClickHandled (fire h st) = firstClickHandled st" "mouse (fire h st) = mouse st"
  "rect (fire h st) = rect st"
  using fire_cases [of h st] by auto

lemma fire_timers:
  "timers (fire h st) = timers st \<or> timers (fire h st) = filter (\<lambda>t. t_id t \<noteq> h) (timers st)"
  using fire_cases [of h st] by (auto simp: clearTimeout_def)

lemma fire_settle:
  "settle_inv st \<Longrightarrow> settle_inv (fire h st)"
  using fire_timers [of h st]
  by (auto simp: settle_inv_def fire_fields settle_ok_filter)

lemma fire_pending_subset:
  "set (pending act (fire h st)) \<subseteq> set (pending act st)"
  "length (pending act (fire h st)) \<le> length (pending act st)"
proof -
  have f: "pending act (fire h st) = pending act st \<or>
        pending act (fire h st) = filter (\<lambda>t. t_id t \<noteq> h) (pending act st)"
    using fire_timers [of h st] by (auto simp: pending_def conj_commute)
  then show "set (pending act (fire h st)) \<subseteq> set (pending act st)"
    by auto
  from f show "length (pending act (fire h st)) \<le> length (pending act st)"
    by auto
qed

lemma step_settle_inv: "settle_inv st \<Longrightarrow> settle_inv (step e st)"
proof -
  assume inv: "settle_inv st"
  have tick: "settle_inv (st\<lparr>now := x\<rparr>) = settle_inv st" for x
    by (rule settle_inv_same; simp)
  have last: "settle_inv (st\<lparr>lastTime := x\<rparr>) = settle_inv st" for x
    by (rule settle_inv_same; simp)
  have click: "settle_inv (onClick cx cy st) = settle_inv st" for cx cy
    by (rule settle_inv_same; simp)
  have rsz: "settle_inv (resize a b st) = settle_inv st" for a b
    by (rule settle_inv_same; simp)
  have first: "settle_inv (loop x (st\<lparr>lastTime := x\<rparr>))" for x
    using inv loop_settle(1) [of "st\<lparr>lastTime := x\<rparr>" x] by (simp add: last)
  show ?thesis
    using inv
    by (cases e)
       (simp_all add: step_def tick click rsz first loop_settle fire_settle
          onMouseMove_settle unmount_settle)
qed

lemma step_now:
  "now (step e st) =
     (case e of Tick d \<Rightarrow> (if reloads st = 0 \<and> 0 \<le> d then now st + d else now st)
      | _ \<Rightarrow> now st)"
  by (cases e) (simp_all add: step_def loop_def update_def Let_def fire_fields)

lemma step_pending_other:
  assumes "\<not> is_move e"
  shows "set (pending SettleDetonation (step e st)) \<subseteq> set (pending SettleDetonation st)"
    and "length (pending SettleDetonation (step e st)) \<le> length (pending SettleDetonation st)"
proof -
  have tick: "pending SettleDetonation (st\<lparr>now := x\<rparr>) = pending SettleDetonation st" for x
    by (simp add: pending_def)
  have click: "pending SettleDetonation (onClick cx cy st) = pending SettleDetonation st" for cx cy
    by (simp add: pending_def)
  have rsz: "pending SettleDetonation (resize a b st) = pending SettleDetonation st" for a b
    by (simp add: pending_def)
  have first: "pending SettleDetonation (st\<lparr>lastTime := x\<rparr>) = pending SettleDetonation st"
    for x
    by (simp add: pending_def)
  have "pending SettleDetonation (unmount st) = pending SettleDetonation st \<or>
        pending SettleDetonation (unmount st) =
          filter (\<lambda>t. t_id t \<noteq> the (stopTimer st)) (pending SettleDetonation st)"
    by (auto simp: pending_def unmount_timers conj_commute)
  then have un: "set (pending SettleDetonation (unmount st)) \<subseteq> set (pending SettleDetonation st)"
    "length (pending SettleDetonation (unmount st)) \<le> length (pending SettleDetonation st)"
    by auto
  show "set (pending SettleDetonation (step e st)) \<subseteq> set (pending SettleDetonation st)"
    using assms fire_pending_subset(1) [of SettleDetonation _ st] un(1)
    by (cases e) (simp_all add: step_def tick click rsz first loop_settle(2))
  show "length (pending SettleDetonation (step e st)) \<le> length (pending SettleDetonation st)"
    using assms fire_pending_subset(2) [of SettleDetonation _ st] un(2)
    by (cases e) (simp_all add: step_def tick click rsz first loop_settle(2))
qed

lemma dead_no_settle: "0 < reloads st \<Longrightarrow> settle_count evs st = 0"
proof (induction evs arbitrary: st)
  case (Cons e es)
  have "step e st = st" using Cons.prems by (simp add: step_def)
  moreover have "\<not> settle_fires e st"
    using Cons.prems by (cases e) (simp_all add: settle_fires_def)
  ultimately show ?case using Cons by simp
qed simp

lemma settle_firesD:
  assumes "settle_fires e st"
  obtains h t where "e = Fire h" and "reloads st = 0"
    and "find (\<lambda>t. t_id t = h) (timers st) = Some t"
    and "action t = SettleDetonation" and "fireAt t \<le> now st"
  using assms by (cases e) (auto simp: settle_fires_def split: option.splits)

lemma settle_inv_not_running:
  "settle_inv st \<Longrightarrow> \<not> running st \<Longrightarrow> pending SettleDetonation st = []"
  by (auto simp: settle_inv_def settle_ok_def pending_def list_all_iff filter_empty_conv)

lemma not_due_blocks:
  assumes "not_due r st" and "0 < r"
  shows "\<not> settle_fires e st"
proof
  assume "settle_fires e st"
  then obtain h t where t: "find (\<lambda>t. t_id t = h) (timers st) = Some t"
    "action t = SettleDetonation" "fireAt t \<le> now st"
    by (rule settle_firesD)
  from find_SomeD [OF t(1)] t(2) have "t \<in> set (pending SettleDetonation st)"
    by (simp add: pending_def)
  with assms(1) have "now st + r \<le> fireAt t"
    by (simp add: not_due_def list_all_iff)
  with t(3) assms(2) show False by simp
qed

lemma not_due_step:
  assumes inv: "settle_inv st" and r: "0 < r" and nd: "not_due r st"
    and q: "quiet r (e # es)" and live: "reloads st = 0"
  obtains r' where "0 < r'" and "not_due r' (step e st)" and "quiet r' es"
proof (cases e)
  case (Tick d)
  show ?thesis
  proof (cases "0 \<le> d")
    case True
    with q Tick have "d < r" "quiet (r - d) es" by simp_all
    moreover have "not_due (r - d) (step e st)"
      using nd True live by (simp add: Tick step_def not_due_def pending_def)
    ultimately show ?thesis using that [of "r - d"] by simp
  next
    case False
    with q Tick nd live r that [of r] show ?thesis by (simp add: step_def)
  qed
next
  case (Move cx cy)
  have "not_due 240 (step e st)"
  proof (cases "running st")
    case True
    then show ?thesis
      using live by (simp add: Move step_def not_due_def onMouseMove_settle(2) [OF inv])
  next
    case False
    with settle_inv_not_running [OF inv] live show ?thesis
      by (simp add: Move step_def not_due_def)
  qed
  with q Move that [of 240] show ?thesis by simp
next
  case (Click cx cy)
  then have "\<not> is_move e" by simp
  from step_pending_other(1) [OF this, of st] nd have "not_due r (step e st)"
    by (auto simp: not_due_def list_all_iff step_now Click)
  with q Click r that [of r] show ?thesis by simp
next
  case (Resize a b)
  then have "\<not> is_move e" by simp
  from step_pending_other(1) [OF this, of st] nd have "not_due r (step e st)"
    by (auto simp: not_due_def list_all_iff step_now Resize)
  with q Resize r that [of r] show ?thesis by simp
next
  case (FirstFrame t)
  then have "\<not> is_move e" by simp
  from step_pending_other(1) [OF this, of st] nd have "not_due r (step e st)"
    by (auto simp: not_due_def list_all_iff step_now FirstFrame)
  with q FirstFrame r that [of r] show ?thesis by simp
next
  case (Frame t)
  then have "\<not> is_move e" by simp
  from step_pending_other(1) [OF this, of st] nd have "not_due r (step e st)"
    by (auto simp: not_due_def list_all_iff step_now Frame)
  with q Frame r that [of r] show ?thesis by simp
next
  case (Fire h)
  then have "\<not> is_move e" by simp
  from step_pending_other(1) [OF this, of st] nd have "not_due r (step e st)"
    by (auto simp: not_due_def list_all_iff step_now Fire)
  with q Fire r that [of r] show ?thesis by simp
next
  case Unmount
  then have "\<not> is_move e" by simp
  from step_pending_other(1) [OF this, of st] nd have "not_due r (step e st)"
    by (auto simp: not_due_def list_all_iff step_now Unmount)
  with q Unmount r that [of r] show ?thesis by simp
qed

lemma quiet_no_settle:
  assumes "settle_inv st" and "0 < r" and "not_due r st" and "quiet r evs"
  shows "settle_count evs st = 0"
  using assms
proof (induction evs arbitrary: st r)
  case (Cons e es)
  show ?case
  proof (cases "reloads st = 0")
    case True
    from not_due_step [OF Cons.prems True]
    obtain r' where r': "0 < r'" "not_due r' (step e st)" "quiet r' es"
      by blast
    have "settle_count es (step e st) = 0"
      using step_settle_inv [OF Cons.prems(1)] r' by (rule Cons.IH)
    moreover have "\<not> settle_fires e st"
      using Cons.prems(3,2) by (rule not_due_blocks)
    ultimately show ?thesis by simp
  next
    case False
    then have "0 < reloads st" by simp
    then show ?thesis by (rule dead_no_settle)
  qed
qed simp

lemma settle_count_bound:
  "no_moves evs \<Longrightarrow> settle_count evs st \<le> length (pending SettleDetonation st)"
proof (induction evs arbitrary: st)
  case (Cons e es)
  then have nm: "\<not> is_move e" "no_moves es" by (simp_all add: no_moves_def)
  have ih: "settle_count es (step e st) \<le> length (pending SettleDetonation (step e st))"
    using nm(2) by (rule Cons.IH)
  show ?case
  proof (cases "settle_fires e st")
    case True
    then obtain h t where e: "e = Fire h" "reloads st = 0"
      and t: "find (\<lambda>t. t_id t = h) (timers st) = Some t"
      "action t = SettleDetonation" "fireAt t \<le> now st"
      by (rule settle_firesD)
    have "step e st = run_action SettleDetonation (clearTimeout h st)"
      using e t by (simp add: step_def fire_pending)
    then have "pending SettleDetonation (step e st) = pending SettleDetonation (clearTimeout h st)"
      by (simp add: pending_def)
    with pending_fired [OF t(1,2)] ih True show ?thesis by simp
  next
    case False
    with ih step_pending_other(2) [OF nm(1), of st] show ?thesis by simp
  qed
qed simp

lemma settle_inv_init: "settle_inv (init iw ih t0)"
  by (simp add: settle_inv_def settle_ok_def init_def Let_def)

lemma settle_inv_run: "settle_inv st \<Longrightarrow> settle_inv (run evs st)"
  by (induction evs arbitrary: st) (simp_all add: step_settle_inv)

lemma pending_clearTimeout_eq:
  "pending act (clearTimeout h st) = filter (\<lambda>t. t_id t \<noteq> h) (pending act st)"
  by (simp add: pending_def clearTimeout_def conj_commute)

lemma move_pending:
  assumes "settle_inv st"
  shows "reloads st = 0 \<Longrightarrow> not_due 240 (step (Move cx cy) st)"
    and "length (pending SettleDetonation (step (Move cx cy) st)) \<le> 1 \<or> 0 < reloads st"
proof -
  have p: "pending SettleDetonation (step (Move cx cy) st) =
      (if running st
       then (if firstClickHandled st
             then [\<lparr>t_id = nextTimer st, fireAt = now st + 240, action = SettleDetonation\<rparr>]
             else [])
       else [])" if "reloads st = 0"
    using that settle_inv_not_running [OF assms] onMouseMove_settle(2) [OF assms]
    by (simp add: step_def)
  have n: "now (step (Move cx cy) st) = now st"
    by (simp add: step_now)
  show "reloads st = 0 \<Longrightarrow> not_due 240 (step (Move cx cy) st)"
    by (simp add: not_due_def p n)
  show "length (pending SettleDetonation (step (Move cx cy) st)) \<le> 1 \<or> 0 < reloads st"
    by (cases "reloads st = 0") (simp_all add: p)
qed

lemma hit_handle:
  assumes "n < nextTimer st"
  shows "n < nextTimer (hit_bomber j st) \<and>
         filter (\<lambda>t. t_id t = n) (timers (hit_bomber j st)) = filter (\<lambda>t. t_id t = n) (timers st)"
    and "n < nextTimer (hit_boy j st) \<and>
         filter (\<lambda>t. t_id t = n) (timers (hit_boy j st)) = filter (\<lambda>t. t_id t = n) (timers st)"
  using assms hit_bomber_timers [of j st] hit_boy_timers [of j st] by auto

lemma collide_body_handle:
  assumes "n < nextTimer st"
  shows "n < nextTimer (collide_body j st) \<and>
         filter (\<lambda>t. t_id t = n) (timers (collide_body j st)) =
           filter (\<lambda>t. t_id t = n) (timers st)"
  using hit_handle(1) [OF assms, of j] hit_handle(2) [of n "hit_bomber j st" j] assms
  by (simp add: collide_body_def)

lemma collide_handle:
  assumes "n < nextTimer st"
  shows "n < nextTimer (collide i st) \<and>
         filter (\<lambda>t. t_id t = n) (timers (collide i st)) = filter (\<lambda>t. t_id t = n) (timers st)"
proof (rule collide_invariant [where P = "\<lambda>s. n < nextTimer s \<and>
         filter (\<lambda>t. t_id t = n) (timers s) = filter (\<lambda>t. t_id t = n) (timers st)"])
  fix j and s :: game
  assume "n < nextTimer s \<and>
         filter (\<lambda>t. t_id t = n) (timers s) = filter (\<lambda>t. t_id t = n) (timers st)"
  with collide_body_handle [of n s j]
  show "n < nextTimer (collide_body j s) \<and>
         filter (\<lambda>t. t_id t = n) (timers (collide_body j s)) =
           filter (\<lambda>t. t_id t = n) (timers st)"
    by simp
qed (simp add: assms)

lemma loop_handle:
  assumes "n < nextTimer st"
  shows "n < nextTimer (loop t st) \<and>
         filter (\<lambda>t. t_id t = n) (timers (loop t st)) = filter (\<lambda>t. t_id t = n) (timers st)"
  using collide_handle [of n "integrate (t - lastTime st) (st\<lparr>lastTime := t\<rparr>)" 0] assms
  by (simp add: loop_def update_def Let_def)

lemma loop_fields:
  "running (loop t st) = running st" "stopTimer (loop t st) = stopTimer st"
  "mouse (loop t st) = mouse st" "rect (loop t st) = rect st"
  by (simp_all add: loop_def update_def Let_def)

lemma armed_same:
  assumes "running s = running st" and "stopTimer s = stopTimer st"
    and "nextTimer s = nextTimer st" and "timers s = timers st"
  shows "armed n f s = armed n f st"
  using assms by (simp add: armed_def)

lemma armed_loop: "armed n f st \<Longrightarrow> armed n f (loop t st)"
  using loop_handle [of n st t] by (simp add: armed_def loop_fields)

lemma armed_fire: "armed n f st \<Longrightarrow> h \<noteq> n \<Longrightarrow> armed n f (fire h st)"
proof -
  assume a: "armed n f st" and h: "h \<noteq> n"
  have "filter (\<lambda>t. t_id t = n) (filter (\<lambda>t. t_id t \<noteq> h) ts) = filter (\<lambda>t. t_id t = n) ts"
    for ts :: "Timer list"
    using h by (induction ts) auto
  with fire_timers [of h st]
  have "filter (\<lambda>t. t_id t = n) (timers (fire h st)) = filter (\<lambda>t. t_id t = n) (timers st)"
    by auto
  with a show ?thesis by (simp add: armed_def fire_fields)
qed

lemma armed_step:
  assumes "armed n f st" and "lets_wait n e"
  shows "armed n f (step e st)"
proof (cases "reloads st = 0")
  case True
  have tick: "armed n f (st\<lparr>now := x\<rparr>) = armed n f st" for x
    by (rule armed_same; simp)
  have last: "armed n f (st\<lparr>lastTime := x\<rparr>) = armed n f st" for x
    by (rule armed_same; simp)
  have click: "armed n f (onClick cx cy st) = armed n f st" for cx cy
    by (rule armed_same; simp)
  have rsz: "armed n f (resize a b st) = armed n f st" for a b
    by (rule armed_same; simp)
  have first: "armed n f (loop x (st\<lparr>lastTime := x\<rparr>))" for x
    using assms(1) armed_loop [of n f "st\<lparr>lastTime := x\<rparr>" x] by (simp add: last)
  show ?thesis
    using assms
    by (cases e) (simp_all add: step_def tick click rsz first armed_loop armed_fire)
qed (simp add: step_def assms)

lemma step_mouse: "\<not> is_move e \<Longrightarrow> mouse (step e st) = mouse st"
  by (cases e) (simp_all add: step_def loop_fields fire_fields unmount_def clearTimeout_def Let_def)



lemma lets_wait_no_move: "lets_wait n e \<Longrightarrow> \<not> is_move e"
  by (cases e) simp_all

lemma armed_settle_handle:
  assumes "settle_inv st" and "armed n f st" and "t \<in> set (timers st)"
    and "action t = SettleDetonation"
  shows "t_id t = n"
  using assms by (auto simp: settle_inv_def settle_ok_def armed_def list_all_iff)

lemma armed_blocks:
  assumes "settle_inv st" and "armed n f st" and "lets_wait n e"
  shows "\<not> settle_fires e st"
proof
  assume "settle_fires e st"
  then obtain h t where e: "e = Fire h"
    and t: "find (\<lambda>t. t_id t = h) (timers st) = Some t" "action t = SettleDetonation"
    by (rule settle_firesD)
  from find_SomeD [OF t(1)] have "t \<in> set (timers st)" "t_id t = h" by simp_all
  with armed_settle_handle [OF assms(1,2) _ t(2)] have "h = n" by simp
  with assms(3) e show False by simp
qed

lemma undisturbed_run:
  assumes "settle_inv st" and "armed n f st" and "undisturbed n evs"
  shows "armed n f (run evs st) \<and> settle_count evs st = 0 \<and> mouse (run evs st) = mouse st"
  using assms
proof (induction evs arbitrary: st)
  case (Cons e es)
  then have e: "lets_wait n e" and es: "undisturbed n es"
    by (simp_all add: undisturbed_def)
  note ih = Cons.IH [OF step_settle_inv [OF Cons.prems(1)] armed_step [OF Cons.prems(2) e] es]
  from armed_blocks [OF Cons.prems(1,2) e] step_mouse [OF lets_wait_no_move [OF e], of st] ih
  show ?case by simp
qed simp

lemma filter_single_find:
  "filter P xs = [x] \<Longrightarrow> find P xs = Some x"
proof (induction xs)
  case (Cons a xs)
  show ?case
  proof (cases "P a")
    case True
    with Cons.prems show ?thesis by simp
  next
    case False
    with Cons show ?thesis by simp
  qed
qed simp

lemma armed_fires:
  assumes inv: "settle_inv st" and a: "armed n f st" and live: "reloads st = 0"
    and due: "f \<le> now st"
  shows "settle_fires (Fire n) st"
    and "explosions (step (Fire n) st) =
           explosions st @ [new_explosion (v_x (mouse st)) (v_y (mouse st)) (now st)]"
    and "pending SettleDetonation (step (Fire n) st) = []"
proof -
  let ?tm = "\<lparr>t_id = n, fireAt = f, action = SettleDetonation\<rparr>"
  from a have "filter (\<lambda>t. t_id t = n) (timers st) = [?tm]" by (simp add: armed_def)
  then have f: "find (\<lambda>t. t_id t = n) (timers st) = Some ?tm" by (rule filter_single_find)
  show "settle_fires (Fire n) st"
    using f live due by (simp add: settle_fires_def)
  have s: "step (Fire n) st = run_action SettleDetonation (clearTimeout n st)"
    using f live due by (simp add: step_def fire_pending)
  show "explosions (step (Fire n) st) =
           explosions st @ [new_explosion (v_x (mouse st)) (v_y (mouse st)) (now st)]"
    by (simp add: s run_action_def spawnExplosion_def)
  have "\<forall>t\<in>set (pending SettleDetonation st). t_id t = n"
    using armed_settle_handle [OF inv a] by (auto simp: pending_def)
  then have "filter (\<lambda>t. t_id t \<noteq> n) (pending SettleDetonation st) = []"
    by (simp add: filter_empty_conv)
  then have "pending SettleDetonation (clearTimeout n st) = []"
    by (simp add: pending_clearTimeout_eq)
  then show "pending SettleDetonation (step (Fire n) st) = []"
    by (simp add: s pending_def run_action_def)
qed

lemma move_arms:
  assumes inv: "settle_inv st" and run: "running st" and live: "reloads st = 0"
    and fch: "firstClickHandled st"
  shows "armed (nextTimer st) (now st + 240) (step (Move cx cy) st)"
    and "mouse (step (Move cx cy) st) = \<lparr>v_x = cx - v_x (rect st), v_y = cy - v_y (rect st)\<rparr>"
proof -
  let ?n = "nextTimer st"
  let ?ts = "if truthy (stopTimer st)
             then filter (\<lambda>t. t_id t \<noteq> the (stopTimer st)) (timers st) else timers st"
  have s1: "step (Move cx cy) st = onMouseMove cx cy st" using run live by (simp add: step_def)
  have "\<forall>t\<in>set (timers st). t_id t \<noteq> ?n"
    using inv by (auto simp: settle_inv_def settle_ok_def list_all_iff)
  then have "\<forall>t\<in>set ?ts. t_id t \<noteq> ?n" by auto
  then have "filter (\<lambda>t. t_id t = ?n) ?ts = []" by (simp add: filter_empty_conv)
  then show "armed ?n (now st + 240) (step (Move cx cy) st)"
    using run fch by (simp add: s1 armed_def onMouseMove_timers)
  show "mouse (step (Move cx cy) st) = \<lparr>v_x = cx - v_x (rect st), v_y = cy - v_y (rect st)\<rparr>"
    by (simp add: s1 onMouseMove_timers)
qed

lemma reloads_step_mono: "reloads st \<le> reloads (step e st)"
proof -
  have "reloads st \<le> reloads (fire h st)" for h
    using fire_cases [of h st] by (auto simp: run_action_reloads)
  then show ?thesis
    by (cases e) (simp_all add: step_def loop_def update_def unmount_def clearTimeout_def Let_def)
qed

lemma reloads_run_mono: "reloads st \<le> reloads (run evs st)"
proof (induction evs arbitrary: st)
  case (Cons e es)
  from reloads_step_mono [of st e] Cons.IH [of "step e st"] show ?case by simp
qed simp

lemma settle_count_append:
  "settle_count (xs @ ys) st = settle_count xs st + settle_count ys (run xs st)"
  by (induction xs arbitrary: st) simp_all

lemma settle_after_wait:
  assumes inv: "settle_inv st" and run: "running st" and fch: "firstClickHandled st"
    and und: "undisturbed (nextTimer st) mid"
    and live: "reloads (run (Move cx cy # mid) st) = 0"
    and due: "now st + 240 \<le> now (run (Move cx cy # mid) st)"
  shows "settle_count (Move cx cy # mid) st = 0"
    and "settle_fires (Fire (nextTimer st)) (run (Move cx cy # mid) st)"
    and "mouse (run (Move cx cy # mid) st) =
           \<lparr>v_x = cx - v_x (rect st), v_y = cy - v_y (rect st)\<rparr>"
    and "explosions (run (Move cx cy # mid @ [Fire (nextTimer st)]) st) =
           explosions (run (Move cx cy # mid) st) @
             [new_explosion (cx - v_x (rect st)) (cy - v_y (rect st))
                (now (run (Move cx cy # mid) st))]"
    and "pending SettleDetonation (run (Move cx cy # mid @ [Fire (nextTimer st)]) st) = []"
    and "armed (nextTimer st) (now st + 240) (run (Move cx cy # mid) st)"
proof -
  let ?n = "nextTimer st"
  let ?s1 = "step (Move cx cy) st"
  let ?s2 = "run mid ?s1"
  have l0: "reloads st = 0"
    using live reloads_run_mono [of st "Move cx cy # mid"] by simp
  note arm = move_arms [OF inv run l0 fch, of cx cy]
  have inv1: "settle_inv ?s1" using inv by (rule step_settle_inv)
  have inv2: "settle_inv ?s2" using inv1 by (rule settle_inv_run)
  note w = undisturbed_run [OF inv1 arm(1) und]
  from w have a2: "armed ?n (now st + 240) ?s2" by simp
  have l2: "reloads ?s2 = 0" using live by simp
  have d2: "now st + 240 \<le> now ?s2" using due by simp
  note f = armed_fires [OF inv2 a2 l2 d2]
  have nf: "\<not> settle_fires (Move cx cy) st" by (simp add: settle_fires_def)
  show "settle_count (Move cx cy # mid) st = 0" using w nf by simp
  show "settle_fires (Fire ?n) (run (Move cx cy # mid) st)" using f(1) by simp
  show "mouse (run (Move cx cy # mid) st) =
           \<lparr>v_x = cx - v_x (rect st), v_y = cy - v_y (rect st)\<rparr>"
    using w arm(2) by simp
  show "explosions (run (Move cx cy # mid @ [Fire ?n]) st) =
           explosions (run (Move cx cy # mid) st) @
             [new_explosion (cx - v_x (rect st)) (cy - v_y (rect st))
                (now (run (Move cx cy # mid) st))]"
    using f(2) w arm(2) by (simp add: run_append)
  show "pending SettleDetonation (run (Move cx cy # mid @ [Fire ?n]) st) = []"
    using f(3) by (simp add: run_append)
  show "armed ?n (now st + 240) (run (Move cx cy # mid) st)" using a2 by simp
qed

text \<open>
  C8. \<open>settle_count evs st\<close> counts the steps of the run \<open>evs\<close> from \<open>st\<close> in which the
  settle callback runs. Take any state the session can reach. From a pointer move on, as
  long as every pause between moves is shorter than 240 ms, no settle detonation fires,
  whatever else happens in between. After a pointer move that no other move follows, at
  most one settle detonation fires. If an activation has occurred, let the move be followed
  by any events that deliver no further move, do not unmount the component and do not yet
  run the armed callback (time passing, frames, activations, resizes, other callbacks),
  until the clock has advanced by 240 ms or more, the page not being reloaded. Then no
  settle detonation has fired so far, the pointer position is still that of the move, and
  the armed callback, when the browser runs it, pushes one explosion at that position, with
  radius 0 and stamped with the clock value of the callback. It is the only settle
  detonation of the whole run, whatever follows without a further move.
\<close>

theorem settle_debounce:
  "(quiet 240 evs \<longrightarrow> settle_count (Move cx cy # evs) (run pre (init iw ih t0)) = 0)
   \<and> (no_moves evs \<longrightarrow> settle_count (Move cx cy # evs) (run pre (init iw ih t0)) \<le> 1)
   \<and> (let S = run pre (init iw ih t0); n = nextTimer S; S' = run (Move cx cy # mid) S
       in running S \<and> firstClickHandled S \<and> undisturbed n mid \<and>
          reloads S' = 0 \<and> now S + 240 \<le> now S' \<and> no_moves evs \<longrightarrow>
            settle_count (Move cx cy # mid) S = 0 \<and>
            settle_count (Move cx cy # mid @ Fire n # evs) S = 1 \<and>
            mouse S' = \<lparr>v_x = cx - v_x (rect S), v_y = cy - v_y (rect S)\<rparr> \<and>
            explosions (step (Fire n) S') =
              explosions S' @
                [\<lparr>ex_x = cx - v_x (rect S), ex_y = cy - v_y (rect S), ex_r = 0, maxR = 140,
                  ex_alive = True, createdAt = now S', kind = nuclear, lifeMs = 1200,
                  hitBomber = False, hitBoy = False\<rparr>])"
proof -
  define st where "st = run pre (init iw ih t0)"
  let ?s1 = "step (Move cx cy) st"
  have inv: "settle_inv st"
    unfolding st_def using settle_inv_init by (rule settle_inv_run)
  have inv1: "settle_inv ?s1"
    using inv by (rule step_settle_inv)
  have nf: "\<not> settle_fires (Move cx cy) st" by (simp add: settle_fires_def)
  have a: "settle_count (Move cx cy # evs) st = 0" if q: "quiet 240 evs"
  proof (cases "reloads st = 0")
    case True
    from move_pending(1) [OF inv True] have "not_due 240 ?s1" .
    with inv1 have "settle_count evs ?s1 = 0"
      using q by (intro quiet_no_settle [where r = 240]) simp_all
    with nf show ?thesis by simp
  next
    case False
    then have "0 < reloads st" by simp
    then show ?thesis by (rule dead_no_settle)
  qed
  have b: "settle_count (Move cx cy # evs) st \<le> 1" if nm: "no_moves evs"
  proof (cases "reloads st = 0")
    case True
    with move_pending(2) [OF inv, of cx cy]
    have "length (pending SettleDetonation ?s1) \<le> 1" by simp
    with settle_count_bound [OF nm, of ?s1] nf show ?thesis by simp
  next
    case False
    then have "0 < reloads st" by simp
    then have "settle_count (Move cx cy # evs) st = 0" by (rule dead_no_settle)
    then show ?thesis by simp
  qed
  have c: "settle_count (Move cx cy # mid) st = 0 \<and>
        settle_count (Move cx cy # mid @ Fire (nextTimer st) # evs) st = 1 \<and>
        mouse (run (Move cx cy # mid) st) =
          \<lparr>v_x = cx - v_x (rect st), v_y = cy - v_y (rect st)\<rparr> \<and>
        explosions (step (Fire (nextTimer st)) (run (Move cx cy # mid) st)) =
          explosions (run (Move cx cy # mid) st) @
            [\<lparr>ex_x = cx - v_x (rect st), ex_y = cy - v_y (rect st), ex_r = 0, maxR = 140,
              ex_alive = True, createdAt = now (run (Move cx cy # mid) st), kind = nuclear,
              lifeMs = 1200, hitBomber = False, hitBoy = False\<rparr>]"
    if h: "running st" "firstClickHandled st" "undisturbed (nextTimer st) mid"
      "reloads (run (Move cx cy # mid) st) = 0"
      "now st + 240 \<le> now (run (Move cx cy # mid) st)"
      and nm: "no_moves evs"
  proof -
    let ?n = "nextTimer st"
    let ?m = "Move cx cy # mid"
    note w = settle_after_wait [OF inv h]
    have "settle_count evs (run (?m @ [Fire ?n]) st)
            \<le> length (pending SettleDetonation (run (?m @ [Fire ?n]) st))"
      using nm by (rule settle_count_bound)
    with w(5) have rest: "settle_count evs (run (?m @ [Fire ?n]) st) = 0" by simp
    have "settle_count (?m @ [Fire ?n] @ evs) st =
            settle_count ?m st + settle_count ([Fire ?n] @ evs) (run ?m st)"
      by (rule settle_count_append)
    also have "settle_count ([Fire ?n] @ evs) (run ?m st) =
            settle_count [Fire ?n] (run ?m st) + settle_count evs (run [Fire ?n] (run ?m st))"
      by (rule settle_count_append)
    finally have "settle_count (?m @ [Fire ?n] @ evs) st = 1"
      using w(1,2) rest by (simp add: run_append)
    then have one: "settle_count (Move cx cy # mid @ Fire ?n # evs) st = 1" by simp
    from w(4) have "explosions (step (Fire ?n) (run (Move cx cy # mid) st)) =
          explosions (run (Move cx cy # mid) st) @
            [\<lparr>ex_x = cx - v_x (rect st), ex_y = cy - v_y (rect st), ex_r = 0, maxR = 140,
              ex_alive = True, createdAt = now (run (Move cx cy # mid) st), kind = nuclear,
              lifeMs = 1200, hitBomber = False, hitBoy = False\<rparr>]"
      by (simp add: run_append new_explosion_def)
    with w(1,3) one show ?thesis by blast
  qed
  from a b c show ?thesis unfolding st_def Let_def by blast
qed

theorem settle_debounce_witness:
  "running moved_state \<and> firstClickHandled moved_state \<and>
   nextTimer moved_state = 3 \<and> now moved_state = 216 \<and>
   quiet 240 [Tick 100, Move 310 200, Tick 100, Move 320 200, Tick 40, Fire 3, Fire 2, Fire 1] \<and>
   settle_count
     [Move 300 200, Tick 100, Move 310 200, Tick 100, Move 320 200, Tick 40, Fire 3, Fire 2,
      Fire 1] click_state = 0 \<and>
   undisturbed 3 [Tick 100, Frame 316, Tick 140, Fire 2] \<and>
   reloads (run [Move 320 200, Tick 100, Frame 316, Tick 140, Fire 2] moved_state) = 0 \<and>
   now (run [Move 320 200, Tick 100, Frame 316, Tick 140, Fire 2] moved_state) = 456 \<and>
   settle_count [Move 320 200, Tick 100, Frame 316, Tick 140, Fire 2] moved_state = 0 \<and>
   settle_count
     [Move 320 200, Tick 100, Frame 316, Tick 140, Fire 2, Fire 3, Tick 1000, Fire 3,
      Frame 1456] moved_state = 1 \<and>
   explosions (step (Fire 3)
       (run [Move 320 200, Tick 100, Frame 316, Tick 140, Fire 2] moved_state)) =
     [\<lparr>ex_x = 100, ex_y = 100, ex_r = 56, maxR = 140, ex_alive = True, createdAt = 16,
       kind = nuclear, lifeMs = 1200, hitBomber = False, hitBoy = False\<rparr>,
      \<lparr>ex_x = 320, ex_y = 200, ex_r = 0, maxR = 140, ex_alive = True, createdAt = 456,
       kind = nuclear, lifeMs = 1200, hitBomber = False, hitBoy = False\<rparr>]"
proof -
  let ?w = "run [Move 320 200, Tick 100, Frame 316, Tick 140, Fire 2] moved_state"
  have h: "running moved_state" "firstClickHandled moved_state"
    and v: "nextTimer moved_state = 3" "now moved_state = 216"
      "rect moved_state = \<lparr>v_x = 0, v_y = 0\<rparr>"
    by (simp_all add: moved_state_def click_state_def eval_defs numeral_3_eq_3
          cong: let_weak_cong)
  have "let s = ?w in
          reloads s = 0 \<and> now s = 456 \<and>
          explosions s =
            [\<lparr>ex_x = 100, ex_y = 100, ex_r = 56, maxR = 140, ex_alive = True, createdAt = 16,
              kind = nuclear, lifeMs = 1200, hitBomber = False, hitBoy = False\<rparr>]"
    by (simp add: moved_state_def click_state_def eval_defs cong: let_weak_cong)
  then have w: "reloads ?w = 0" "now ?w = 456"
    "explosions ?w =
       [\<lparr>ex_x = 100, ex_y = 100, ex_r = 56, maxR = 140, ex_alive = True, createdAt = 16,
         kind = nuclear, lifeMs = 1200, hitBomber = False, hitBoy = False\<rparr>]"
    unfolding Let_def by blast+
  have q: "quiet 240 [Tick 100, Move 310 200, Tick 100, Move 320 200, Tick 40, Fire 3, Fire 2, Fire 1]"
    and nm: "no_moves [Tick 1000, Fire 3, Frame 1456]"
    and u: "undisturbed 3 [Tick 100, Frame 316, Tick 140, Fire 2]"
    by (simp_all add: no_moves_def undisturbed_def)
  have cs: "click_state = run [Tick 16, FirstFrame 16, Click 100 100] (init 800 600 0)"
    by (simp add: click_state_def session0_def)
  have ms: "moved_state =
      run [Tick 16, FirstFrame 16, Click 100 100, Move 300 200, Tick 100, Move 310 200, Tick 100]
        (init 800 600 0)"
    by (simp add: moved_state_def click_state_def session0_def)
  from settle_debounce
    [of "[Tick 100, Move 310 200, Tick 100, Move 320 200, Tick 40, Fire 3, Fire 2, Fire 1]"
        300 200 "[Tick 16, FirstFrame 16, Click 100 100]" 800 600 0 "[]"] q
  have one: "settle_count
     [Move 300 200, Tick 100, Move 310 200, Tick 100, Move 320 200, Tick 40, Fire 3, Fire 2,
      Fire 1] click_state = 0"
    unfolding cs by blast
  have d: "now moved_state + 240 \<le> now ?w" unfolding v w by simp
  note inst = settle_debounce
    [of "[Tick 1000, Fire 3, Frame 1456]" 320 200
        "[Tick 16, FirstFrame 16, Click 100 100, Move 300 200, Tick 100, Move 310 200, Tick 100]"
        800 600 0 "[Tick 100, Frame 316, Tick 140, Fire 2]", folded ms, unfolded Let_def v(1)]
  from inst h u w(1) d nm
  have "settle_count [Move 320 200, Tick 100, Frame 316, Tick 140, Fire 2] moved_state = 0 \<and>
        settle_count
          ([Move 320 200, Tick 100, Frame 316, Tick 140, Fire 2] @
             Fire 3 # [Tick 1000, Fire 3, Frame 1456]) moved_state = 1 \<and>
        explosions (step (Fire 3) ?w) =
          explosions ?w @
            [\<lparr>ex_x = 320 - v_x (rect moved_state), ex_y = 200 - v_y (rect moved_state),
              ex_r = 0, maxR = 140, ex_alive = True, createdAt = now ?w, kind = nuclear,
              lifeMs = 1200, hitBomber = False, hitBoy = False\<rparr>]"
    by simp
  then have two: "settle_count [Move 320 200, Tick 100, Frame 316, Tick 140, Fire 2] moved_state = 0"
    "settle_count
     [Move 320 200, Tick 100, Frame 316, Tick 140, Fire 2, Fire 3, Tick 1000, Fire 3,
      Frame 1456] moved_state = 1"
    "explosions (step (Fire 3) ?w) =
     [\<lparr>ex_x = 100, ex_y = 100, ex_r = 56, maxR = 140, ex_alive = True, createdAt = 16,
       kind = nuclear, lifeMs = 1200, hitBomber = False, hitBoy = False\<rparr>,
      \<lparr>ex_x = 320, ex_y = 200, ex_r = 0, maxR = 140, ex_alive = True, createdAt = 456,
       kind = nuclear, lifeMs = 1200, hitBomber = False, hitBoy = False\<rparr>]"
    unfolding v w by simp_all
  from h v(1,2) q one u w(1,2) two show ?thesis by blast
qed

subsection \<open>Activation while the settle timer is pending\<close>

lemma undisturbed_append:
  "undisturbed n (xs @ ys) \<longleftrightarrow> undisturbed n xs \<and> undisturbed n ys"
  by (simp add: undisturbed_def)





subsection \<open>The score along a run\<close>

lemma kept_refl: "kept xs xs"
  by (simp add: kept_def)

lemma kept_trans: "kept xs ys \<Longrightarrow> kept ys zs \<Longrightarrow> kept xs zs"
  by (auto simp: kept_def)

lemma kept_append: "kept xs (xs @ ys)"
  by (simp add: kept_def nth_append)

lemma kept_update:
  assumes "origin y = origin (xs ! j)" and "hitBomber (xs ! j) \<longrightarrow> hitBomber y"
  shows "kept xs (xs[j := y])"
proof (cases "j < length xs")
  case True
  with assms show ?thesis by (auto simp: kept_def nth_list_update)
next
  case False
  then show ?thesis by (simp add: kept_refl not_less list_update_beyond)
qed

lemma kept_map:
  "(\<And>x. origin (f x) = origin x \<and> hitBomber (f x) = hitBomber x) \<Longrightarrow> kept xs (map f xs)"
  by (simp add: kept_def)

lemma hit_boy_kept: "kept (explosions st) (explosions (hit_boy j st))"
  by (simp add: hit_boy_cases kept_refl kept_update origin_def)

lemma hit_bomber_kept: "kept (explosions st) (explosions (hit_bomber j st))"
proof (cases "bomber_cond j st")
  case True
  let ?xs = "(explosions st)[j := (explosions st ! j)\<lparr>hitBomber := True\<rparr>]"
  have "kept (explosions st) ?xs"
    by (rule kept_update) (simp_all add: origin_def)
  moreover have "kept ?xs (?xs @ [new_explosion (a_x (bomber st)) (a_y (bomber st)) (now st)])"
    by (rule kept_append)
  ultimately have "kept (explosions st)
      (?xs @ [new_explosion (a_x (bomber st)) (a_y (bomber st)) (now st)])"
    by (rule kept_trans)
  with True show ?thesis by (simp add: hit_bomber_hit)
qed (simp add: hit_bomber_miss kept_refl)

lemma collide_body_kept: "kept (explosions st) (explosions (collide_body j st))"
  using hit_bomber_kept [of st j] hit_boy_kept [of "hit_bomber j st" j]
  by (auto simp: collide_body_def kept_refl intro: kept_trans)

lemma collide_kept: "kept (explosions st) (explosions (collide i st))"
proof (rule collide_invariant [where P = "\<lambda>s. kept (explosions st) (explosions s)"])
  fix j and s :: game
  assume "kept (explosions st) (explosions s)"
  then show "kept (explosions st) (explosions (collide_body j s))"
    using collide_body_kept by (rule kept_trans)
qed (rule kept_refl)

lemma draw_kept: "kept (explosions st) (explosions (draw dt st))"
proof -
  have "explosions (draw dt st) =
      map (\<lambda>ex. if ex_alive ex then drawNuclearExplosion (now st) ex else ex) (explosions st)"
    by (simp add: draw_def)
  moreover have "kept (explosions st)
      (map (\<lambda>ex. if ex_alive ex then drawNuclearExplosion (now st) ex else ex) (explosions st))"
    by (rule kept_map) (simp add: origin_def drawNuclearExplosion_def Let_def)
  ultimately show ?thesis by simp
qed

lemma before_cleanup_kept:
  "kept (explosions st) (explosions (before_cleanup e st))"
proof -
  have u: "kept (explosions st) (explosions (draw d (update d' (st\<lparr>lastTime := t\<rparr>))))"
    for d d' t
  proof -
    have "kept (explosions (integrate d' (st\<lparr>lastTime := t\<rparr>)))
        (explosions (update d' (st\<lparr>lastTime := t\<rparr>)))"
      unfolding update_def by (rule collide_kept)
    then have "kept (explosions st) (explosions (update d' (st\<lparr>lastTime := t\<rparr>)))"
      by simp
    then show ?thesis using draw_kept by (rule kept_trans)
  qed
  show ?thesis
    by (cases e) (simp_all add: before_cleanup_def u kept_refl)
qed

lemma before_cleanup_now: "now (before_cleanup e st) = now st"
  by (cases e) (simp_all add: before_cleanup_def update_def)

lemma frames_step:
  "frames e st \<Longrightarrow> step e st = cleanup (before_cleanup e st)"
  by (cases e) (simp_all add: frames_def step_def loop_def before_cleanup_def Let_def)

lemma cleanup_filter:
  "explosions (cleanup st) = filter (\<lambda>ex. \<not> expired st ex) (explosions st)"
proof -
  have "cleanup_explosions t xs = filter (\<lambda>ex. \<not> t - createdAt ex > lifeMs ex) xs" for t xs
    by (induction xs) (simp_all add: Let_def)
  then show ?thesis by (simp add: cleanup_def expired_def)
qed

lemma filter_nth_kept:
  assumes "j < length xs" and "P (xs ! j)"
  shows "length (filter P (take j xs)) < length (filter P xs)"
    and "filter P xs ! length (filter P (take j xs)) = xs ! j"
proof -
  let ?a = "filter P (take j xs)" and ?b = "filter P (drop (Suc j) xs)"
  have "filter P xs = filter P (take j xs @ xs ! j # drop (Suc j) xs)"
    using assms(1) by (simp add: id_take_nth_drop [symmetric])
  also have "\<dots> = ?a @ xs ! j # ?b"
    using assms(2) by simp
  finally have f: "filter P xs = ?a @ xs ! j # ?b" .
  have "length (?a @ xs ! j # ?b) = Suc (length ?a + length ?b)" by simp
  with f show "length ?a < length (filter P xs)" by simp
  have "(?a @ xs ! j # ?b) ! length ?a = xs ! j" by simp
  with f show "filter P xs ! length ?a = xs ! j" by simp
qed

lemma filter_take_cong:
  assumes "j \<le> length xs" and "j \<le> length ys" and "\<forall>i<j. P (xs ! i) = Q (ys ! i)"
  shows "length (filter P (take j xs)) = length (filter Q (take j ys))"
  using assms
proof (induction j)
  case (Suc j)
  then show ?case by (simp add: take_Suc_conv_app_nth)
qed simp

lemma expired_origin: "origin a = origin b \<Longrightarrow> now s = now st \<Longrightarrow> expired s a = expired st b"
  by (simp add: origin_def expired_def)

lemma run_action_explosions:
  "explosions (run_action a st) =
     (if a = SettleDetonation
      then explosions st @ [new_explosion (v_x (mouse st)) (v_y (mouse st)) (now st)]
      else explosions st)"
  by (cases a) (simp_all add: run_action_def spawnExplosion_def)

lemma fire_explosions:
  "explosions (fire h st) = explosions st \<or>
   explosions (fire h st) =
     explosions st @ [new_explosion (v_x (mouse st)) (v_y (mouse st)) (now st)]"
proof -
  from fire_cases [of h st] show ?thesis
  proof
    assume "fire h st = st"
    then show ?thesis by simp
  next
    assume "\<exists>t. find (\<lambda>t. t_id t = h) (timers st) = Some t \<and> fireAt t \<le> now st \<and>
        fire h st = run_action (action t) (clearTimeout h st)"
    then show ?thesis by (elim exE conjE) (simp add: run_action_explosions)
  qed
qed

lemma onClick_explosions:
  "explosions (onClick cx cy st) =
     explosions st @ [new_explosion (cx - v_x (rect st)) (cy - v_y (rect st)) (now st)]"
  by (simp add: onClick_def spawnExplosion_def Let_def)

lemma step_kept_other:
  assumes "\<not> frames e st"
  shows "kept (explosions st) (explosions (step e st))"
proof (cases "reloads st = 0")
  case True
  have fr: "kept (explosions st) (explosions (fire h st))" for h
    using fire_explosions [of h st] kept_refl [of "explosions st"]
      kept_append [of "explosions st"]
    by (elim disjE) simp_all
  show ?thesis
  proof (cases e)
    case (Click cx cy)
    then show ?thesis by (simp add: step_def onClick_explosions kept_refl kept_append)
  next
    case (FirstFrame t)
    with assms True show ?thesis by (simp add: step_def frames_def kept_refl)
  next
    case (Frame t)
    with assms True show ?thesis by (simp add: step_def frames_def kept_refl)
  next
    case (Fire h)
    then show ?thesis by (simp add: step_def fr kept_refl)
  qed (simp_all add: step_def kept_refl)
qed (simp add: step_def kept_refl)

lemma follow_step:
  assumes "follow e st j = Some k"
  shows "k < length (explosions (step e st))"
    and "origin (explosions (step e st) ! k) = origin (explosions st ! j)"
    and "hitBomber (explosions st ! j) \<Longrightarrow> hitBomber (explosions (step e st) ! k)"
proof -
  from assms have j: "j < length (explosions st)"
    by (simp add: follow_def split: if_splits)
  have "k < length (explosions (step e st)) \<and>
        origin (explosions (step e st) ! k) = origin (explosions st ! j) \<and>
        (hitBomber (explosions st ! j) \<longrightarrow> hitBomber (explosions (step e st) ! k))"
  proof (cases "frames e st")
    case False
    with assms j have "k = j" by (simp add: follow_def)
    with step_kept_other [OF False] j show ?thesis by (auto simp: kept_def)
  next
    case True
    let ?s = "before_cleanup e st"
    let ?P = "\<lambda>ex. \<not> expired ?s ex"
    note kp = before_cleanup_kept [of st e]
    from kp j have j': "j < length (explosions ?s)" by (simp add: kept_def)
    have ex: "expired ?s (explosions ?s ! i) = expired st (explosions st ! i)"
      if "i < length (explosions st)" for i
      using kp that by (intro expired_origin) (simp_all add: kept_def before_cleanup_now)
    from assms True j have ne: "\<not> expired st (explosions st ! j)"
      and k: "k = length (filter (\<lambda>ex. \<not> expired st ex) (take j (explosions st)))"
      by (simp_all add: follow_def split: if_splits)
    have "length (filter ?P (take j (explosions ?s))) =
          length (filter (\<lambda>ex. \<not> expired st ex) (take j (explosions st)))"
      using j j' ex by (intro filter_take_cong) simp_all
    then have k': "k = length (filter ?P (take j (explosions ?s)))" using k by simp
    from ne ex [OF j] have "?P (explosions ?s ! j)" by simp
    from filter_nth_kept [of j "explosions ?s" ?P, OF j' this]
    have "k < length (explosions (step e st))"
      "explosions (step e st) ! k = explosions ?s ! j"
      by (simp_all add: frames_step [OF True] cleanup_filter k')
    with kp j show ?thesis by (simp add: kept_def)
  qed
  then show "k < length (explosions (step e st))"
    and "origin (explosions (step e st) ! k) = origin (explosions st ! j)"
    and "hitBomber (explosions st ! j) \<Longrightarrow> hitBomber (explosions (step e st) ! k)"
    by simp_all
qed

lemma follow_run_kept:
  "follow_run evs st j = Some k \<Longrightarrow>
   k < length (explosions (run evs st)) \<and>
   origin (explosions (run evs st) ! k) = origin (explosions st ! j) \<and>
   (hitBomber (explosions st ! j) \<longrightarrow> hitBomber (explosions (run evs st) ! k))"
proof (induction evs arbitrary: st j)
  case Nil
  then show ?case by (simp split: if_splits)
next
  case (Cons e es)
  from Cons.prems obtain m where m: "follow e st j = Some m"
    and r: "follow_run es (step e st) m = Some k"
    by (auto split: option.splits)
  from follow_step [OF m] Cons.IH [OF r] show ?case by simp
qed

lemma flagged_draw: "flagged (draw dt st) = flagged st"
proof -
  have "filter hitBomber (map (\<lambda>ex. if ex_alive ex then drawNuclearExplosion t ex else ex) xs)
        = map (\<lambda>ex. if ex_alive ex then drawNuclearExplosion t ex else ex) (filter hitBomber xs)"
    for t xs
    by (induction xs) (simp_all add: drawNuclearExplosion_def Let_def)
  then show ?thesis by (simp add: flagged_def draw_def)
qed

lemma flagged_cleanup: "flagged (cleanup st) \<le> flagged st"
proof -
  have "length (filter hitBomber (filter P xs)) \<le> length (filter hitBomber xs)" for P xs
    by (induction xs) (simp_all add: le_SucI)
  then show ?thesis by (simp add: flagged_def cleanup_filter)
qed

lemma score_before_cleanup:
  "int (flagged (before_cleanup e st)) - score (before_cleanup e st) = int (flagged st) - score st"
proof -
  have "int (flagged (draw d (update d' (st\<lparr>lastTime := t\<rparr>))))
          - score (draw d (update d' (st\<lparr>lastTime := t\<rparr>))) = int (flagged st) - score st"
    for d d' t
  proof -
    have "flagged (integrate d' (st\<lparr>lastTime := t\<rparr>)) = flagged st"
      by (simp add: flagged_def)
    with collide_score_count [of 0 "integrate d' (st\<lparr>lastTime := t\<rparr>)"]
    show ?thesis by (simp add: flagged_draw update_def)
  qed
  then show ?thesis by (cases e) (simp_all add: before_cleanup_def)
qed

lemma new_explosion_unflagged: "\<not> hitBomber (new_explosion x y t)"
  by (simp add: new_explosion_def)

lemma score_step_other:
  assumes "\<not> frames e st"
  shows "score (step e st) = score st" and "flagged (step e st) = flagged st"
proof -
  have fr: "flagged (fire h st) = flagged st" for h
    using fire_explosions [of h st] by (elim disjE) (simp_all add: flagged_def new_explosion_unflagged)
  have "score (step e st) = score st \<and> flagged (step e st) = flagged st"
  proof (cases e)
    case (Click cx cy)
    then show ?thesis by (simp add: step_def flagged_def onClick_explosions new_explosion_unflagged)
  next
    case (FirstFrame t)
    with assms show ?thesis by (auto simp: step_def frames_def)
  next
    case (Frame t)
    with assms show ?thesis by (auto simp: step_def frames_def)
  next
    case (Fire h)
    then show ?thesis by (simp add: step_def fr)
  qed (simp_all add: step_def flagged_def)
  then show "score (step e st) = score st" and "flagged (step e st) = flagged st"
    by simp_all
qed

lemma score_step_account:
  "score (step e st) + int (flagged st) =
     score st + int (flagged (step e st)) + int (retired e st)"
proof (cases "frames e st")
  case True
  from flagged_cleanup [of "before_cleanup e st"] score_before_cleanup [of e st]
  show ?thesis
    using True by (simp add: frames_step retired_def)
next
  case False
  then show ?thesis by (simp add: score_step_other retired_def)
qed

lemma score_run_account:
  "score (run evs st) + int (flagged st) =
     score st + int (flagged (run evs st)) + int (retired_run evs st)"
proof (induction evs arbitrary: st)
  case (Cons e es)
  from Cons.IH [of "step e st"] score_step_account [of e st] show ?case by simp
qed simp


lemma now_step_mono: "now st \<le> now (step e st)"
  by (cases e) (simp_all add: step_now)

lemma now_run_mono: "now st \<le> now (run evs st)"
proof (induction evs arbitrary: st)
  case (Cons e es)
  from now_step_mono [of st e] Cons.IH [of "step e st"] show ?case by simp
qed simp

lemma expired_mono: "now st \<le> now s \<Longrightarrow> expired st ex \<Longrightarrow> expired s ex"
  by (simp add: expired_def)

lemma follow_run_alive:
  assumes "j < length (explosions st)" and "\<not> expired (run evs st) (explosions st ! j)"
  shows "\<exists>m. follow_run evs st j = Some m"
  using assms
proof (induction evs arbitrary: st j)
  case (Cons e es)
  have "\<not> expired st (explosions st ! j)"
    using Cons.prems(2) expired_mono [OF now_run_mono [of st "e # es"]] by blast
  with Cons.prems(1) have "\<exists>m. follow e st j = Some m"
    by (simp add: follow_def)
  then obtain m where m: "follow e st j = Some m" ..
  note fs = follow_step [OF m]
  have "expired (run es (step e st)) (explosions (step e st) ! m) =
        expired (run (e # es) st) (explosions st ! j)"
    using fs(2) by (intro expired_origin) simp_all
  with Cons.prems(2) have "\<not> expired (run es (step e st)) (explosions (step e st) ! m)"
    by simp
  from Cons.IH [OF fs(1) this] m show ?case by simp
qed simp

lemma filter_take_strict:
  assumes "j < j'" and "j' \<le> length xs" and "P (xs ! j)"
  shows "length (filter P (take j xs)) < length (filter P (take j' xs))"
proof -
  have "j < length (take j' xs)" "P (take j' xs ! j)" "take j (take j' xs) = take j xs"
    using assms by (simp_all add: min_def)
  with filter_nth_kept(1) [of j "take j' xs" P] show ?thesis by simp
qed

lemma follow_inj:
  assumes "follow e st j = Some m" and "follow e st j' = Some m"
  shows "j = j'"
proof (cases "frames e st")
  case False
  with assms show ?thesis by (simp add: follow_def split: if_splits)
next
  case True
  let ?P = "\<lambda>ex. \<not> expired st ex"
  let ?c = "\<lambda>i. length (filter ?P (take i (explosions st)))"
  from assms True have j: "j < length (explosions st)" "?P (explosions st ! j)" "m = ?c j"
    and j': "j' < length (explosions st)" "?P (explosions st ! j')" "m = ?c j'"
    by (simp_all add: follow_def split: if_splits)
  show ?thesis
  proof (rule ccontr)
    assume "j \<noteq> j'"
    then consider "j < j'" | "j' < j" by linarith
    then show False
    proof cases
      case 1
      from filter_take_strict [of j j' "explosions st" ?P, OF 1] j j' show False by simp
    next
      case 2
      from filter_take_strict [of j' j "explosions st" ?P, OF 2] j j' show False by simp
    qed
  qed
qed

lemma follow_run_inj:
  "follow_run evs st j = Some m \<Longrightarrow> follow_run evs st j' = Some m \<Longrightarrow> j = j'"
proof (induction evs arbitrary: st j j')
  case Nil
  then show ?case by (simp split: if_splits)
next
  case (Cons e es)
  from Cons.prems obtain a b where a: "follow e st j = Some a" "follow_run es (step e st) a = Some m"
    and b: "follow e st j' = Some b" "follow_run es (step e st) b = Some m"
    by (auto split: option.splits)
  from Cons.IH [OF a(2) b(2)] have "a = b" .
  with a(1) b(1) show ?case by (auto intro: follow_inj)
qed

text \<open>
  C1. The score never decreases along any sequence of events. Within an update step the
  score grows by exactly the number of explosions whose \<open>hitBomber\<close> flag goes from unset
  to set; the loop body adds exactly 1 for an explosion that passes the Flyer test and sets
  its flag, adds nothing for an explosion that is already flagged, and a set flag stays set
  through the rest of the collision loop. Along every sequence of events
  \<open>follow_run evs st j\<close> tracks one explosion: at the index it gives, position, creation
  time and lifetime are those of the explosion at index \<open>j\<close> of \<open>st\<close>, two explosions are
  never tracked to the same index, and an explosion is tracked for as long as its age does
  not exceed its lifetime. A flag that is set stays set for as long as the explosion is in
  the array, through the draw pass, the cleanup and every other event. Hence, along every
  sequence of events, the score gained is the number of explosions that were flagged on the
  way: those flagged at the end, and the flagged ones that a cleanup has removed, less
  those flagged at the start.
\<close>

theorem score_once_per_explosion:
  "score st \<le> score (run evs st)
   \<and> score (update dt st) = score st + int (flagged (update dt st)) - int (flagged st)
   \<and> (\<forall>k<length (explosions st). hitBomber (explosions st ! k) \<longrightarrow>
          hitBomber (explosions (update dt st) ! k))
   \<and> (hitBomber (explosions st ! i) \<longrightarrow> score (collide_body i st) = score st)
   \<and> (i < length (explosions st) \<and> qualifies i st \<longrightarrow>
          score (collide_body i st) = score st + 1 \<and>
          hitBomber (explosions (collide_body i st) ! i))
   \<and> (\<forall>k<length (explosions st). hitBomber (explosions st ! k) \<longrightarrow>
          hitBomber (explosions (collide i st) ! k))
   \<and> (follow_run evs st j = Some m \<longrightarrow>
          m < length (explosions (run evs st)) \<and>
          origin (explosions (run evs st) ! m) = origin (explosions st ! j) \<and>
          (hitBomber (explosions st ! j) \<longrightarrow> hitBomber (explosions (run evs st) ! m)) \<and>
          (follow_run evs st j' = Some m \<longrightarrow> j' = j))
   \<and> (j < length (explosions st) \<and> \<not> expired (run evs st) (explosions st ! j) \<longrightarrow>
          follow_run evs st j \<noteq> None)
   \<and> score (run evs st) + int (flagged st) =
       score st + int (flagged (run evs st)) + int (retired_run evs st)"
proof -
  let ?s0 = "integrate dt st"
  have a: "score st \<le> score (run evs st)" by (rule score_run)
  have f0: "flagged ?s0 = flagged st" by (simp add: flagged_def)
  from collide_score_count [of 0 ?s0]
  have b: "score (update dt st) = score st + int (flagged (update dt st)) - int (flagged st)"
    by (simp add: update_def f0)
  from collide_flags_kept [of ?s0 0]
  have c: "\<forall>k<length (explosions st). hitBomber (explosions st ! k) \<longrightarrow>
          hitBomber (explosions (update dt st) ! k)"
    by (simp add: update_def)
  have d: "score (collide_body i st) = score st" if "hitBomber (explosions st ! i)"
    using that
    by (simp add: collide_body_def hit_boy_score_flags hit_bomber_miss bomber_cond_def Let_def)
  have e: "score (collide_body i st) = score st + 1 \<and>
          hitBomber (explosions (collide_body i st) ! i)"
    if "i < length (explosions st)" "qualifies i st"
    using that
    by (simp add: collide_body_def qualifies_def hit_boy_score_flags hit_bomber_hit nth_append)
  from collide_flags_kept [of st i]
  have f: "\<forall>k<length (explosions st). hitBomber (explosions st ! k) \<longrightarrow>
          hitBomber (explosions (collide i st) ! k)"
    by simp
  have g: "m < length (explosions (run evs st)) \<and>
          origin (explosions (run evs st) ! m) = origin (explosions st ! j) \<and>
          (hitBomber (explosions st ! j) \<longrightarrow> hitBomber (explosions (run evs st) ! m)) \<and>
          (follow_run evs st j' = Some m \<longrightarrow> j' = j)"
    if "follow_run evs st j = Some m"
    using follow_run_kept [OF that] follow_run_inj [of evs st j' m j] that by blast
  have h: "follow_run evs st j \<noteq> None"
    if "j < length (explosions st)" "\<not> expired (run evs st) (explosions st ! j)"
    using follow_run_alive [OF that] by auto
  have k: "score (run evs st) + int (flagged st) =
       score st + int (flagged (run evs st)) + int (retired_run evs st)"
    by (rule score_run_account)
  from a b c d e f g h k show ?thesis by blast
qed

lemmas track_defs = follow_def expired_def frames_def origin_def flagged_def

theorem score_once_per_explosion_witness:
  "score flyer_state = 0 \<and> flagged flyer_state = 0 \<and>
   qualifies 0 (integrate 16 flyer_state) \<and>
   score (update 16 flyer_state) = 1 \<and> flagged (update 16 flyer_state) = 1 \<and>
   score (run [Frame 36417, Tick 16, Frame 36433] flyer_state) = 1 \<and>
   hitBomber (explosions (collide_body 0 (integrate 16 flyer_state)) ! 0) \<and>
   score (collide_body 0 (collide_body 0 (integrate 16 flyer_state))) = 1 \<and>
   score overlap_state = 1 \<and> flagged overlap_state = 1 \<and>
   hitBomber (explosions overlap_state ! 1) \<and>
   a_alive (bomber (integrate 16 overlap_state)) \<and>
   circleHit (explosions (integrate 16 overlap_state) ! 1)
     (a_x (bomber (integrate 16 overlap_state))) (a_y (bomber (integrate 16 overlap_state))) 40 \<and>
   score (collide_body 1 (integrate 16 overlap_state)) = 1 \<and>
   follow_run [Frame 37313, Tick 16] overlap_state 1 = Some 0 \<and>
   hitBomber (explosions (run [Frame 37313, Tick 16] overlap_state) ! 0) \<and>
   origin (explosions (run [Frame 37313, Tick 16] overlap_state) ! 0)
     = (- 255, 340, 36181, 1200) \<and>
   score (run [Frame 37313, Tick 16] overlap_state) = 1 \<and>
   follow_run [Frame 37313, Tick 100, Frame 37413] overlap_state 1 = None \<and>
   score (run [Frame 37313, Tick 100, Frame 37413] overlap_state) = 2 \<and>
   flagged (run [Frame 37313, Tick 100, Frame 37413] overlap_state) = 1 \<and>
   retired_run [Frame 37313, Tick 100, Frame 37413] overlap_state = 1"
proof -
  have v: "score flyer_state = 0" "flagged flyer_state = 0"
    "qualifies 0 (integrate 16 flyer_state)" "0 < length (explosions (integrate 16 flyer_state))"
    "flagged (update 16 flyer_state) = 1"
    "score (run [Frame 36417, Tick 16, Frame 36433] flyer_state) = 1"
    by (simp_all add: flyer_state_def flyer_events_def flagged_def eval_defs cong: let_weak_cong)
  from score_once_per_explosion [of flyer_state "[]" 16 0 0 0 0]
    score_once_per_explosion [of "integrate 16 flyer_state" "[]" 0 0 0 0 0]
    score_once_per_explosion [of "collide_body 0 (integrate 16 flyer_state)" "[]" 0 0 0 0 0] v
  have one: "score flyer_state = 0 \<and> flagged flyer_state = 0 \<and>
   qualifies 0 (integrate 16 flyer_state) \<and>
   score (update 16 flyer_state) = 1 \<and> flagged (update 16 flyer_state) = 1 \<and>
   score (run [Frame 36417, Tick 16, Frame 36433] flyer_state) = 1 \<and>
   hitBomber (explosions (collide_body 0 (integrate 16 flyer_state)) ! 0) \<and>
   score (collide_body 0 (collide_body 0 (integrate 16 flyer_state))) = 1"
    by simp
  have "let s = overlap_state in
          score s = 1 \<and> flagged s = 1 \<and> hitBomber (explosions s ! 1) \<and>
          origin (explosions s ! 1) = (- 255, 340, 36181, 1200)"
    by (simp add: overlap_state_def overlap_events_def track_defs eval_defs
          cong: let_weak_cong)
  then have s: "score overlap_state = 1" "flagged overlap_state = 1"
    "hitBomber (explosions overlap_state ! 1)"
    "origin (explosions overlap_state ! 1) = (- 255, 340, 36181, 1200)"
    unfolding Let_def by blast+
  have "let s = integrate 16 overlap_state in
          score s = 1 \<and> hitBomber (explosions s ! 1) \<and> a_alive (bomber s) \<and>
          circleHit (explosions s ! 1) (a_x (bomber s)) (a_y (bomber s)) 40"
    by (simp add: overlap_state_def overlap_events_def track_defs eval_defs
          cong: let_weak_cong)
  then have i: "score (integrate 16 overlap_state) = 1"
    "hitBomber (explosions (integrate 16 overlap_state) ! 1)"
    "a_alive (bomber (integrate 16 overlap_state))"
    "circleHit (explosions (integrate 16 overlap_state) ! 1)
       (a_x (bomber (integrate 16 overlap_state))) (a_y (bomber (integrate 16 overlap_state))) 40"
    unfolding Let_def by blast+
  have r1: "follow_run [Frame 37313, Tick 16] overlap_state 1 = Some 0"
    "score (run [Frame 37313, Tick 16] overlap_state) = 1"
    by (simp_all add: overlap_state_def overlap_events_def track_defs eval_defs
          cong: let_weak_cong)
  have r2: "follow_run [Frame 37313, Tick 100, Frame 37413] overlap_state 1 = None"
    by (simp add: overlap_state_def overlap_events_def track_defs eval_defs
          cong: let_weak_cong)
  have "let s = run [Frame 37313, Tick 100, Frame 37413] overlap_state in
          score s = 2 \<and> flagged s = 1"
    by (simp add: overlap_state_def overlap_events_def track_defs eval_defs
          cong: let_weak_cong)
  then have r3: "score (run [Frame 37313, Tick 100, Frame 37413] overlap_state) = 2"
    "flagged (run [Frame 37313, Tick 100, Frame 37413] overlap_state) = 1"
    unfolding Let_def by blast+
  from score_once_per_explosion [of "integrate 16 overlap_state" "[]" 0 1 0 0 0] i(1,2)
  have two: "score (collide_body 1 (integrate 16 overlap_state)) = 1"
    by simp
  from score_once_per_explosion [of overlap_state "[Frame 37313, Tick 16]" 0 0 1 0 1] r1(1) s(3)
  have "hitBomber (explosions (run [Frame 37313, Tick 16] overlap_state) ! 0) \<and>
        origin (explosions (run [Frame 37313, Tick 16] overlap_state) ! 0) =
          origin (explosions overlap_state ! 1)"
    by blast
  then have three: "hitBomber (explosions (run [Frame 37313, Tick 16] overlap_state) ! 0)"
    "origin (explosions (run [Frame 37313, Tick 16] overlap_state) ! 0)
       = (- 255, 340, 36181, 1200)"
    by (simp_all only: s(4))
  from score_once_per_explosion
    [of overlap_state "[Frame 37313, Tick 100, Frame 37413]" 0 0 1 0 1]
  have "score (run [Frame 37313, Tick 100, Frame 37413] overlap_state)
          + int (flagged overlap_state) =
        score overlap_state
          + int (flagged (run [Frame 37313, Tick 100, Frame 37413] overlap_state))
          + int (retired_run [Frame 37313, Tick 100, Frame 37413] overlap_state)"
    by blast
  then have four: "retired_run [Frame 37313, Tick 100, Frame 37413] overlap_state = 1"
    unfolding r3 s(1,2) by linarith
  from one s(1,2,3) i(3,4) two r1 three r2 r3 four show ?thesis by blast
qed

end
